theory Spec2Isabelle
  imports Main "HOL-Library.Sublist"
begin

section \<open>Data model of \<open>src/api.py\<close>\<close>

text \<open>
  A patent record is a Python \<open>dict\<close> produced by the scraper. The fields the API reads
  are modelled one by one; \<open>None\<close> stands for an absent key, so that
  \<open>p.get('publicationNumber', '')\<close> is \<open>get_str (publicationNumber p)\<close>. The list-valued
  fields are read with \<open>p.get(key, [])\<close>, an absent key being the empty list. The fields are
  typed as the specification types them (identifier and date are strings, applicants and
  inventors are lists of strings).
\<close>

record patent =
  publicationNumber :: "string option"
  publicationDate :: "string option"
  title :: "string option"
  applicants :: "string list"
  inventors :: "string list"
  pais_filtro :: "string option"

definition get_str :: "string option \<Rightarrow> string" where
  "get_str v = (case v of None \<Rightarrow> [] | Some x \<Rightarrow> x)"

text \<open>
  A Python \<open>dict\<close> keeps its keys in insertion order: an association list whose keys are
  distinct. Assigning to a present key replaces the value in place, assigning to a new key
  appends the entry.
\<close>

definition dict_contains :: "('k \<times> 'v) list \<Rightarrow> 'k \<Rightarrow> bool" where
  "dict_contains d k = (k \<in> set (map fst d))"

fun dict_set :: "('k \<times> 'v) list \<Rightarrow> 'k \<Rightarrow> 'v \<Rightarrow> ('k \<times> 'v) list" where
  "dict_set [] k v = [(k, v)]"
| "dict_set ((k', v') # d) k v =
     (if k' = k then (k, v) # d else (k', v') # dict_set d k v)"

definition dict_get :: "('k \<times> 'v) list \<Rightarrow> 'k \<Rightarrow> 'v \<Rightarrow> 'v" where
  "dict_get d k dflt = (case map_of d k of None \<Rightarrow> dflt | Some v \<Rightarrow> v)"

definition dict_values :: "('k \<times> 'v) list \<Rightarrow> 'v list" where
  "dict_values d = map snd d"

definition dict_keys :: "('k \<times> 'v) list \<Rightarrow> 'k list" where
  "dict_keys d = map fst d"

section \<open>Deduplication (\<open>execute_search\<close>, lines 116--123)\<close>

text \<open>
  \<^verbatim>\<open>
  unique_patents = {}
  for p in all_patents:
      pub_num = p.get('publicationNumber', '')
      if pub_num and pub_num not in unique_patents:
          unique_patents[pub_num] = p
  patents_list = list(unique_patents.values())
  \<close>
\<close>

fun dedup_loop :: "(string \<times> patent) list \<Rightarrow> patent list \<Rightarrow> (string \<times> patent) list" where
  "dedup_loop unique_patents [] = unique_patents"
| "dedup_loop unique_patents (p # ps) =
     (let pub_num = get_str (publicationNumber p) in
      if pub_num \<noteq> [] \<and> \<not> dict_contains unique_patents pub_num
      then dedup_loop (dict_set unique_patents pub_num p) ps
      else dedup_loop unique_patents ps)"

definition remove_duplicates :: "patent list \<Rightarrow> patent list" where
  "remove_duplicates all_patents = dict_values (dedup_loop [] all_patents)"

text \<open>
  The contract of the specification, in its own words: the record at position \<open>i\<close> is kept
  when its identifier is non-empty and no earlier record bears it; the result lists the
  kept records in input order.
\<close>

definition pub_id :: "patent \<Rightarrow> string" where
  "pub_id p = get_str (publicationNumber p)"

definition first_bearing :: "patent list \<Rightarrow> nat \<Rightarrow> bool" where
  "first_bearing xs i =
     (pub_id (xs ! i) \<noteq> [] \<and> pub_id (xs ! i) \<notin> set (map pub_id (take i xs)))"

definition first_records :: "patent list \<Rightarrow> patent list" where
  "first_records xs = map (\<lambda>i. xs ! i) (filter (first_bearing xs) [0..<length xs])"

section \<open>Statistics (\<open>execute_search\<close>, lines 153--185)\<close>

text \<open>
  Each table is a \<open>dict\<close> from a string to a Python \<open>int\<close>, filled by
  \<open>table[key] = table.get(key, 0) + 1\<close>.
\<close>

definition increment :: "(string \<times> int) list \<Rightarrow> string \<Rightarrow> (string \<times> int) list" where
  "increment table k = dict_set table k (dict_get table k 0 + 1)"

fun count_por_pais :: "(string \<times> int) list \<Rightarrow> patent list \<Rightarrow> (string \<times> int) list" where
  "count_por_pais por_pais [] = por_pais"
| "count_por_pais por_pais (p # ps) =
     (let pub_num = get_str (publicationNumber p) in
      if pub_num \<noteq> [] \<and> 2 \<le> length pub_num
      then count_por_pais (increment por_pais (take 2 pub_num)) ps
      else count_por_pais por_pais ps)"

fun count_por_ano :: "(string \<times> int) list \<Rightarrow> patent list \<Rightarrow> (string \<times> int) list" where
  "count_por_ano por_ano [] = por_ano"
| "count_por_ano por_ano (p # ps) =
     (let date = get_str (publicationDate p) in
      if date \<noteq> [] \<and> 4 \<le> length date
      then count_por_ano (increment por_ano (take 4 date)) ps
      else count_por_ano por_ano ps)"

fun count_names :: "(string \<times> int) list \<Rightarrow> string list \<Rightarrow> (string \<times> int) list" where
  "count_names table [] = table"
| "count_names table (name # names) =
     (if name \<noteq> [] then count_names (increment table name) names
      else count_names table names)"

fun count_applicants :: "(string \<times> int) list \<Rightarrow> patent list \<Rightarrow> (string \<times> int) list" where
  "count_applicants table [] = table"
| "count_applicants table (p # ps) = count_applicants (count_names table (applicants p)) ps"

fun count_inventors :: "(string \<times> int) list \<Rightarrow> patent list \<Rightarrow> (string \<times> int) list" where
  "count_inventors table [] = table"
| "count_inventors table (p # ps) = count_inventors (count_names table (inventors p)) ps"

record statistics =
  por_pais :: "(string \<times> int) list"
  por_ano :: "(string \<times> int) list"
  top_applicants :: "(string \<times> int) list"
  top_inventors :: "(string \<times> int) list"

definition calc_statistics :: "patent list \<Rightarrow> statistics" where
  "calc_statistics patents_list =
     \<lparr>por_pais = count_por_pais [] patents_list,
      por_ano = count_por_ano [] patents_list,
      top_applicants = count_applicants [] patents_list,
      top_inventors = count_inventors [] patents_list\<rparr>"

section \<open>Tasks, requests and payloads\<close>

text \<open>
  The class \<open>SearchRequest\<close>. The field \<open>term\<close> of the source is \<open>search_term\<close> here.
\<close>

record search_request =
  search_term :: string
  limit :: int
  countries :: "string list option"
  use_login :: bool
  get_details :: bool
  max_details :: "int option"

text \<open>The values stored in a result payload or written to an artifact.\<close>

datatype pyval =
    VNone
  | VBool bool
  | VInt int
  | VStr string
  | VList "pyval list"
  | VDict "(string \<times> pyval) list"
  | VPatent patent

text \<open>
  The status of a task is one of the four strings \<open>"queued"\<close>, \<open>"running"\<close>,
  \<open>"completed"\<close>, \<open>"failed"\<close>.
\<close>

datatype status = Queued | Running | Completed | Failed

fun status_str :: "status \<Rightarrow> string" where
  "status_str Queued = ''queued''"
| "status_str Running = ''running''"
| "status_str Completed = ''completed''"
| "status_str Failed = ''failed''"

text \<open>
  An entry of the registry \<open>tasks\<close>. The keys \<open>progress\<close>, \<open>result\<close> and \<open>error\<close> are absent
  until the worker assigns them (\<open>task.get("result")\<close> is then \<open>None\<close>).
\<close>

record task =
  task_id :: string
  status :: status
  request :: search_request
  created_at :: string
  progress :: "string option"
  result :: "(string \<times> pyval) list option"
  error :: "string option"

text \<open>
  An exception that \<open>except Exception\<close> catches: a \<open>KeyError\<close> of the registry, or any
  other exception with its message \<open>str(e)\<close>.
\<close>

datatype exn = KeyError string | PyException string

fun str_exn :: "exn \<Rightarrow> string" where
  "str_exn (KeyError k) = [CHR 0x27] @ k @ [CHR 0x27]"
| "str_exn (PyException m) = m"

text \<open>An assignment \<open>tasks[task_id][key] = value\<close> of the worker.\<close>

datatype task_write =
    SetStatus status
  | SetProgress string
  | SetResult "(string \<times> pyval) list"
  | SetError string

fun apply_write :: "task_write \<Rightarrow> task \<Rightarrow> task" where
  "apply_write (SetStatus st) t = t\<lparr>status := st\<rparr>"
| "apply_write (SetProgress p) t = t\<lparr>progress := Some p\<rparr>"
| "apply_write (SetResult r) t = t\<lparr>result := Some r\<rparr>"
| "apply_write (SetError m) t = t\<lparr>error := Some m\<rparr>"

section \<open>Collaborators\<close>

text \<open>
  The scraper, the enrichment and grouping functions of \<open>patentscope_detalhes\<close>, the file
  system and the clock are outside the program. Each is a function of a world state \<open>'w\<close>
  that returns a value or raises. \<open>json_dump path data\<close> stands for
  \<open>with open(path, 'w') as f: json.dump(data, f)\<close>.

  The enrichment receives the list object \<open>patents_list\<close> itself, whose records are mutable
  dictionaries, and may write into it before it raises. When it raises, its outcome
  therefore carries, next to the exception, the list as the call left it; when it returns,
  the worker goes on with the list it returned.
\<close>

record 'w env =
  uuid4 :: "'w \<Rightarrow> string \<times> 'w"
  now_isoformat :: "'w \<Rightarrow> string \<times> 'w"
  now_strftime :: "'w \<Rightarrow> string \<times> 'w"
  PatentScopeScraper :: "bool \<Rightarrow> 'w \<Rightarrow> (exn + unit) \<times> 'w"
  mkdir :: "string \<Rightarrow> 'w \<Rightarrow> (exn + unit) \<times> 'w"
  buscar_patentes :: "string \<Rightarrow> string \<Rightarrow> string \<Rightarrow> int \<Rightarrow> 'w \<Rightarrow> (exn + patent list) \<times> 'w"
  buscar_patentes_simples :: "string \<Rightarrow> int \<Rightarrow> 'w \<Rightarrow> (exn + patent list) \<times> 'w"
  enriquecer_patentes_com_detalhes ::
    "patent list \<Rightarrow> int option \<Rightarrow> 'w \<Rightarrow> (exn \<times> patent list + patent list) \<times> 'w"
  agrupar_por_publication_number :: "patent list \<Rightarrow> 'w \<Rightarrow> (exn + pyval) \<times> 'w"
  json_dump :: "string \<Rightarrow> pyval \<Rightarrow> 'w \<Rightarrow> (exn + unit) \<times> 'w"

text \<open>
  What a run did, in order: its assignments to the registry and its calls of the
  collaborators that can raise, each with its outcome.
\<close>

datatype collab_call =
    NewScraper bool
  | Mkdir string
  | Buscar string string string int
  | BuscarSimples string int
  | Enriquecer "patent list" "int option"
  | Agrupar "patent list"
  | JsonDump string pyval

datatype outcome = Raises exn | Returns | ReturnsPatents "patent list"

datatype event = Write string task_write | Call collab_call outcome

record 'w state =
  tasks :: "string \<rightharpoonup> task"
  world :: 'w
  trace :: "event list"

definition ret :: "'a \<Rightarrow> 's \<Rightarrow> (exn + 'a) \<times> 's" where
  "ret v s = (Inr v, s)"

definition bind_exn ::
  "('s \<Rightarrow> (exn + 'a) \<times> 's) \<Rightarrow> ('a \<Rightarrow> 's \<Rightarrow> (exn + 'b) \<times> 's) \<Rightarrow> 's \<Rightarrow> (exn + 'b) \<times> 's" where
  "bind_exn m f s = (case m s of (Inl e, s') \<Rightarrow> (Inl e, s') | (Inr v, s') \<Rightarrow> f v s')"

text \<open>\<open>tasks[task_id][key] = value\<close>: a \<open>KeyError\<close> when the registry has no such task.\<close>

definition write_task :: "string \<Rightarrow> task_write \<Rightarrow> 'w state \<Rightarrow> (exn + unit) \<times> 'w state" where
  "write_task tid wr s =
     (case tasks s tid of
        None \<Rightarrow> (Inl (KeyError tid), s)
      | Some t \<Rightarrow>
          (Inr (), s\<lparr>tasks := (tasks s)(tid \<mapsto> apply_write wr t),
                      trace := trace s @ [Write tid wr]\<rparr>))"

definition invoke ::
  "collab_call \<Rightarrow> ('a \<Rightarrow> outcome) \<Rightarrow> ('w \<Rightarrow> (exn + 'a) \<times> 'w) \<Rightarrow> 'w state
     \<Rightarrow> (exn + 'a) \<times> 'w state" where
  "invoke c shown f s =
     (case f (world s) of
        (Inl e, w') \<Rightarrow> (Inl e, s\<lparr>world := w', trace := trace s @ [Call c (Raises e)]\<rparr>)
      | (Inr v, w') \<Rightarrow> (Inr v, s\<lparr>world := w', trace := trace s @ [Call c (shown v)]\<rparr>))"

definition ask :: "('w \<Rightarrow> 'a \<times> 'w) \<Rightarrow> 'w state \<Rightarrow> (exn + 'a) \<times> 'w state" where
  "ask f s = (case f (world s) of (v, w') \<Rightarrow> (Inr v, s\<lparr>world := w'\<rparr>))"

text \<open>\<open>str(n)\<close> of a length, as the f-strings print it.\<close>

fun str_nat :: "nat \<Rightarrow> string" where
  "str_nat n =
     (if n < 10 then [char_of (48 + n)] else str_nat (n div 10) @ [char_of (48 + n mod 10)])"

declare str_nat.simps [simp del]

section \<open>The worker \<open>execute_search\<close>\<close>

text \<open>
  Lines 83--84: the directory of a run, from the search term and the second in which the
  worker starts: \<open>Path("resultados") / f"patentscope_{term}_{timestamp}"\<close>. A POSIX path
  splits the name at every \<open>/\<close> and drops the empty components and the components \<open>.\<close>;
  the name begins with a letter, so it is never absolute. \<open>results_dir\<close> is the string of
  that path.
\<close>

fun split_sep :: "string \<Rightarrow> string list" where
  "split_sep [] = [[]]"
| "split_sep (c # cs) =
     (if c = CHR ''/'' then [] # split_sep cs
      else (case split_sep cs of [] \<Rightarrow> [[c]] | x # xs \<Rightarrow> (c # x) # xs))"

definition path_parts :: "string \<Rightarrow> string list" where
  "path_parts name = filter (\<lambda>c. c \<noteq> [] \<and> c \<noteq> ''.'') (split_sep name)"

fun join_path :: "string list \<Rightarrow> string" where
  "join_path [] = []"
| "join_path [c] = c"
| "join_path (c # cs) = c @ ''/'' @ join_path cs"

definition run_name :: "string \<Rightarrow> string \<Rightarrow> string" where
  "run_name trm timestamp = ''patentscope_'' @ trm @ ''_'' @ timestamp"

definition results_dir :: "string \<Rightarrow> string \<Rightarrow> string" where
  "results_dir trm timestamp = join_path (''resultados'' # path_parts (run_name trm timestamp))"

text \<open>Lines 193 and 212: the two artifacts of a run, inside its directory.\<close>

definition json_file :: "string \<Rightarrow> string" where
  "json_file pasta = pasta @ ''/patents_complete.json''"

definition summary_file :: "string \<Rightarrow> string" where
  "summary_file pasta = pasta @ ''/summary_with_stats.json''"

text \<open>Lines 71--87: status \<open>running\<close>, the scraper, the directory of the run.\<close>

definition prepare :: "'w env \<Rightarrow> string \<Rightarrow> search_request \<Rightarrow> 'w state \<Rightarrow> (exn + string) \<times> 'w state" where
  "prepare env tid req =
     bind_exn (write_task tid (SetStatus Running)) (\<lambda>_.
     bind_exn (write_task tid (SetProgress ''Initializing scraper...'')) (\<lambda>_.
     bind_exn (invoke (NewScraper (use_login req)) (\<lambda>_. Returns)
                 (PatentScopeScraper env (use_login req))) (\<lambda>_.
     bind_exn (ask (now_strftime env)) (\<lambda>timestamp.
     bind_exn (invoke (Mkdir (results_dir (search_term req) timestamp)) (\<lambda>_. Returns)
                 (mkdir env (results_dir (search_term req) timestamp))) (\<lambda>_.
     bind_exn (write_task tid (SetProgress (''Searching patents for term: '' @ search_term req)))
       (\<lambda>_. ret (results_dir (search_term req) timestamp)))))))"

text \<open>
  Lines 94--109: one search per country, each batch tagged and appended. Records are
  values here: a record object that the scraper returned twice would be tagged twice in
  the source.
\<close>

fun search_countries ::
  "'w env \<Rightarrow> string \<Rightarrow> search_request \<Rightarrow> string list \<Rightarrow> patent list \<Rightarrow> 'w state
     \<Rightarrow> (exn + patent list) \<times> 'w state" where
  "search_countries env tid req [] all_patents s = (Inr all_patents, s)"
| "search_countries env tid req (pais # rest) all_patents s =
     (case write_task tid (SetProgress (''Searching in '' @ pais @ ''...'')) s of
        (Inl e, s1) \<Rightarrow> (Inl e, s1)
      | (Inr u, s1) \<Rightarrow>
          (case invoke (Buscar (search_term req) ''all'' pais (limit req)) ReturnsPatents
                  (buscar_patentes env (search_term req) ''all'' pais (limit req)) s1 of
             (Inl e, s2) \<Rightarrow> (Inl e, s2)
           | (Inr patents, s2) \<Rightarrow>
               search_countries env tid req rest
                 (all_patents @ map (\<lambda>p. p\<lparr>pais_filtro := Some pais\<rparr>) patents) s2))"

text \<open>Lines 90--114: \<open>if request.countries\<close> is false for \<open>None\<close> and for the empty list.\<close>

definition search_stage ::
  "'w env \<Rightarrow> string \<Rightarrow> search_request \<Rightarrow> 'w state \<Rightarrow> (exn + patent list) \<times> 'w state" where
  "search_stage env tid req =
     (if countries req \<noteq> None \<and> countries req \<noteq> Some []
      then search_countries env tid req (the (countries req)) []
      else
        bind_exn (write_task tid (SetProgress ''Executing general search...'')) (\<lambda>_.
        invoke (BuscarSimples (search_term req) (limit req)) ReturnsPatents
          (buscar_patentes_simples env (search_term req) (limit req))))"

text \<open>
  Lines 138--151: the enrichment, with its own \<open>try\<close>/\<open>except\<close>. After an exception the
  variable \<open>patents_list\<close> still names the list that was passed, as the call left it.
\<close>

definition enrich_stage ::
  "'w env \<Rightarrow> string \<Rightarrow> search_request \<Rightarrow> patent list \<Rightarrow> 'w state
     \<Rightarrow> (exn + patent list) \<times> 'w state" where
  "enrich_stage env tid req patents_list =
     (if get_details req \<and> 0 < length patents_list
      then
        bind_exn (write_task tid (SetProgress ''Retrieving complete details...'')) (\<lambda>_ s.
          case enriquecer_patentes_com_detalhes env patents_list (max_details req) (world s) of
            (Inr enriched, w') \<Rightarrow>
              (Inr enriched,
               s\<lparr>world := w',
                 trace := trace s @
                   [Call (Enriquecer patents_list (max_details req)) (ReturnsPatents enriched)]\<rparr>)
          | (Inl (e, left), w') \<Rightarrow>
              bind_exn (write_task tid (SetProgress (''Error retrieving details: '' @ str_exn e)))
                (\<lambda>_. ret left)
                (s\<lparr>world := w',
                   trace := trace s @
                     [Call (Enriquecer patents_list (max_details req)) (Raises e)]\<rparr>))
      else ret patents_list)"

definition table_val :: "(string \<times> int) list \<Rightarrow> pyval" where
  "table_val table = VDict (map (\<lambda>(k, n). (k, VInt n)) table)"

definition stats_val :: "statistics \<Rightarrow> pyval" where
  "stats_val stats =
     VDict [(''por_pais'', table_val (por_pais stats)),
            (''por_ano'', table_val (por_ano stats)),
            (''top_applicants'', table_val (top_applicants stats)),
            (''top_inventors'', table_val (top_inventors stats))]"

definition countries_val :: "string list option \<Rightarrow> pyval" where
  "countries_val cs = (case cs of None \<Rightarrow> VNone | Some l \<Rightarrow> VList (map VStr l))"

text \<open>Lines 199--207: the \<open>search_info\<close> of the summary.\<close>

definition search_info ::
  "search_request \<Rightarrow> string \<Rightarrow> patent list \<Rightarrow> patent list \<Rightarrow> (string \<times> pyval) list" where
  "search_info req data_busca all_patents patents_list =
     [(''termo'', VStr (search_term req)),
      (''data_busca'', VStr data_busca),
      (''total_encontrado'', VInt (int (length all_patents))),
      (''total_unico'', VInt (int (length patents_list))),
      (''paises_filtro'', countries_val (countries req)),
      (''limite'', VInt (limit req)),
      (''detalhes_completos'', VBool (get_details req))]"

text \<open>Lines 198--210: the summary written to \<open>summary_with_stats.json\<close>.\<close>

definition summary ::
  "search_request \<Rightarrow> string \<Rightarrow> patent list \<Rightarrow> patent list \<Rightarrow> statistics \<Rightarrow> pyval" where
  "summary req data_busca all_patents patents_list stats =
     VDict [(''search_info'', VDict (search_info req data_busca all_patents patents_list)),
            (''statistics'', stats_val stats),
            (''patents'', VList (map VPatent patents_list))]"

text \<open>Lines 218--227: the result of a run that found patents.\<close>

definition full_result ::
  "search_request \<Rightarrow> string \<Rightarrow> string \<Rightarrow> patent list \<Rightarrow> patent list \<Rightarrow> statistics
     \<Rightarrow> (string \<times> pyval) list" where
  "full_result req pasta data_busca all_patents patents_list stats =
     [(''search_info'', VDict (search_info req data_busca all_patents patents_list)),
      (''statistics'', stats_val stats),
      (''total_patents'', VInt (int (length patents_list))),
      (''patents'', VList (map VPatent (take 10 patents_list))),
      (''files'', VDict [(''json_complete'', VStr (json_file pasta)),
                         (''summary'', VStr (summary_file pasta))])]"

text \<open>Lines 130--134: the result of a run that found nothing.\<close>

definition empty_result :: "(string \<times> pyval) list" where
  "empty_result =
     [(''message'', VStr ''No patents found''), (''total_found'', VInt 0), (''patents'', VList [])]"

text \<open>Lines 187--227: grouping, the two artifacts, completion.\<close>

definition save_and_complete ::
  "'w env \<Rightarrow> string \<Rightarrow> search_request \<Rightarrow> string \<Rightarrow> patent list \<Rightarrow> patent list \<Rightarrow> statistics
     \<Rightarrow> 'w state \<Rightarrow> (exn + unit) \<times> 'w state" where
  "save_and_complete env tid req pasta all_patents patents_list stats =
     bind_exn (write_task tid (SetProgress ''Saving results...'')) (\<lambda>_.
     bind_exn (invoke (Agrupar patents_list) (\<lambda>_. Returns)
                 (agrupar_por_publication_number env patents_list)) (\<lambda>patents_agrupadas.
     bind_exn (invoke (JsonDump (json_file pasta) patents_agrupadas)
                 (\<lambda>_. Returns)
                 (json_dump env (json_file pasta) patents_agrupadas)) (\<lambda>_.
     bind_exn (ask (now_isoformat env)) (\<lambda>data_busca.
     bind_exn (invoke (JsonDump (summary_file pasta)
                         (summary req data_busca all_patents patents_list stats))
                 (\<lambda>_. Returns)
                 (json_dump env (summary_file pasta)
                    (summary req data_busca all_patents patents_list stats))) (\<lambda>_.
     bind_exn (write_task tid (SetStatus Completed)) (\<lambda>_.
     write_task tid
       (SetResult (full_result req pasta data_busca all_patents patents_list stats))))))))"

text \<open>Lines 116--227: everything after the search. The \<open>return\<close> of line 135 ends the run.\<close>

definition process_results ::
  "'w env \<Rightarrow> string \<Rightarrow> search_request \<Rightarrow> string \<Rightarrow> patent list
     \<Rightarrow> 'w state \<Rightarrow> (exn + unit) \<times> 'w state" where
  "process_results env tid req pasta all_patents =
     bind_exn (write_task tid
         (SetProgress (''Found '' @ str_nat (length (remove_duplicates all_patents))
            @ '' unique patents''))) (\<lambda>_.
     if length (remove_duplicates all_patents) = 0
     then
       bind_exn (write_task tid (SetStatus Completed)) (\<lambda>_.
       write_task tid (SetResult empty_result))
     else
       bind_exn (enrich_stage env tid req (remove_duplicates all_patents)) (\<lambda>patents_list.
       save_and_complete env tid req pasta all_patents patents_list
         (calc_statistics patents_list)))"

text \<open>Lines 70--227: the body of the \<open>try\<close>.\<close>

definition try_body ::
  "'w env \<Rightarrow> string \<Rightarrow> search_request \<Rightarrow> 'w state \<Rightarrow> (exn + unit) \<times> 'w state" where
  "try_body env tid req =
     bind_exn (prepare env tid req) (\<lambda>pasta.
     bind_exn (search_stage env tid req) (\<lambda>all_patents.
     process_results env tid req pasta all_patents))"

text \<open>
  Lines 68--232. \<open>except Exception as e\<close> writes the status and the message; an exception
  of these two assignments leaves the function. \<open>Inl\<close> is an exception that escapes.
\<close>

definition execute_search ::
  "'w env \<Rightarrow> string \<Rightarrow> search_request \<Rightarrow> 'w state \<Rightarrow> (exn + unit) \<times> 'w state" where
  "execute_search env tid req s =
     (case try_body env tid req s of
        (Inr u, s') \<Rightarrow> (Inr (), s')
      | (Inl e, s') \<Rightarrow>
          bind_exn (write_task tid (SetStatus Failed)) (\<lambda>_.
          write_task tid (SetError (str_exn e))) s')"

section \<open>A concrete world\<close>

text \<open>
  A small instance of the collaborators, for running the model on concrete inputs: the file
  system is a dictionary from path to content, the clock stands still, a search by country
  returns one record of that country, the simple search depends on the term, and the
  enrichment writes a title into every record it was given and then raises.
\<close>

record demo_world =
  files :: "(string \<times> pyval) list"
  counter :: nat

definition mk_patent :: "string \<Rightarrow> patent" where
  "mk_patent n =
     \<lparr>publicationNumber = Some n, publicationDate = Some ''2020-05-17'', title = None,
      applicants = [''ACME''], inventors = [], pais_filtro = None\<rparr>"

definition demo_env :: "demo_world env" where
  "demo_env =
     \<lparr>uuid4 = (\<lambda>w. (''task'' @ str_nat (counter w), w\<lparr>counter := counter w + 1\<rparr>)),
      now_isoformat = (\<lambda>w. (''2024-01-01T12:00:00'', w)),
      now_strftime = (\<lambda>w. (''20240101_120000'', w)),
      PatentScopeScraper = (\<lambda>b w. (Inr (), w)),
      mkdir = (\<lambda>p w. (Inr (), w)),
      buscar_patentes = (\<lambda>t c pais l w. (Inr [mk_patent (pais @ ''1'')], w)),
      buscar_patentes_simples =
        (\<lambda>t l w.
           if t = ''boom'' then (Inl (PyException ''connection refused''), w)
           else if t = ''none'' then (Inr [], w)
           else (Inr [mk_patent ''US1'', mk_patent ''US1'', mk_patent ''EP2''], w)),
      enriquecer_patentes_com_detalhes =
        (\<lambda>ps m w.
           (Inl (PyException ''timeout'', map (\<lambda>p. p\<lparr>title := Some ''partial''\<rparr>) ps), w)),
      agrupar_por_publication_number = (\<lambda>ps w. (Inr (VList (map VPatent ps)), w)),
      json_dump = (\<lambda>path data w. (Inr (), w\<lparr>files := dict_set (files w) path data\<rparr>))\<rparr>"

definition demo_request :: "string \<Rightarrow> search_request" where
  "demo_request t =
     \<lparr>search_term = t, limit = 1, countries = None, use_login = False, get_details = False,
      max_details = None\<rparr>"

definition demo_task :: "string \<Rightarrow> search_request \<Rightarrow> task" where
  "demo_task tid req =
     \<lparr>task_id = tid, status = Queued, request = req, created_at = ''2024-01-01T12:00:00'',
      progress = None, result = None, error = None\<rparr>"

definition demo_state :: "string \<Rightarrow> search_request \<Rightarrow> demo_world state" where
  "demo_state tid req =
     \<lparr>tasks = [tid \<mapsto> demo_task tid req], world = \<lparr>files = [], counter = 0\<rparr>, trace = []\<rparr>"

section \<open>Auxiliary notions for the proofs\<close>

text \<open>Deduplication as a recursion with the set of identifiers seen so far.\<close>

fun keep_first :: "string set \<Rightarrow> patent list \<Rightarrow> patent list" where
  "keep_first seen [] = []"
| "keep_first seen (p # ps) =
     (if pub_id p \<noteq> [] \<and> pub_id p \<notin> seen then p # keep_first (insert (pub_id p) seen) ps
      else keep_first seen ps)"

text \<open>The number of records whose identifier has at least two characters and starts with \<open>c\<close>.\<close>

definition country_count :: "patent list \<Rightarrow> string \<Rightarrow> nat" where
  "country_count ps c = length (filter (\<lambda>p. 2 \<le> length (pub_id p) \<and> take 2 (pub_id p) = c) ps)"

text \<open>
  The events of a stage that leaves the status alone: progress notes of the task, calls
  that returned, and the enrichment call, whose exception the worker catches locally.
\<close>

fun is_enrich :: "collab_call \<Rightarrow> bool" where
  "is_enrich (Enriquecer ps m) = True"
| "is_enrich c = False"

fun quiet :: "string \<Rightarrow> event \<Rightarrow> bool" where
  "quiet tid (Write tid' (SetProgress p)) = (tid' = tid)"
| "quiet tid (Write tid' w) = False"
| "quiet tid (Call c (Raises e)) = is_enrich c"
| "quiet tid (Call c r) = True"

text \<open>The events of a stage that raised \<open>e\<close>: quiet ones, then the call that raised.\<close>

fun raising :: "string \<Rightarrow> exn \<Rightarrow> event list \<Rightarrow> bool" where
  "raising tid e [] = False"
| "raising tid e [ev] = (\<exists>c. ev = Call c (Raises e) \<and> \<not> is_enrich c)"
| "raising tid e (ev # evs) = (quiet tid ev \<and> raising tid e evs)"

definition only_progress :: "task \<Rightarrow> task \<Rightarrow> bool" where
  "only_progress t t' = (t' = t\<lparr>progress := progress t'\<rparr>)"

definition emitted :: "'w state \<Rightarrow> 'w state \<Rightarrow> event list" where
  "emitted s s' = drop (length (trace s)) (trace s')"

definition stage_post :: "string \<Rightarrow> 'w state \<Rightarrow> (exn + 'a) \<times> 'w state \<Rightarrow> bool" where
  "stage_post tid s out =
     (case out of (r, s') \<Rightarrow>
        trace s' = trace s @ emitted s s' \<and>
        (case r of Inr v \<Rightarrow> list_all (quiet tid) (emitted s s')
                 | Inl e \<Rightarrow> raising tid e (emitted s s')) \<and>
        (\<forall>k. k \<noteq> tid \<longrightarrow> tasks s' k = tasks s k) \<and>
        (\<exists>t'. tasks s' tid = Some t' \<and> only_progress (the (tasks s tid)) t'))"

definition stage_ok :: "string \<Rightarrow> ('w state \<Rightarrow> (exn + 'a) \<times> 'w state) \<Rightarrow> bool" where
  "stage_ok tid m = (\<forall>s. tasks s tid \<noteq> None \<longrightarrow> stage_post tid s (m s))"

definition completes ::
  "string \<Rightarrow> ((string \<times> pyval) list \<Rightarrow> bool) \<Rightarrow> event list \<Rightarrow> task \<Rightarrow> task \<Rightarrow> bool" where
  "completes tid P evs t t' =
     (\<exists>evs0 res. evs = evs0 @ [Write tid (SetStatus Completed), Write tid (SetResult res)] \<and>
        list_all (quiet tid) evs0 \<and> P res \<and>
        t' = t\<lparr>status := Completed, progress := progress t', result := Some res\<rparr>)"

definition finish_post ::
  "string \<Rightarrow> ((string \<times> pyval) list \<Rightarrow> bool) \<Rightarrow> 'w state \<Rightarrow> (exn + unit) \<times> 'w state \<Rightarrow> bool" where
  "finish_post tid P s out =
     (case out of (r, s') \<Rightarrow>
        trace s' = trace s @ emitted s s' \<and>
        (\<forall>k. k \<noteq> tid \<longrightarrow> tasks s' k = tasks s k) \<and>
        (\<exists>t'. tasks s' tid = Some t' \<and>
           (case r of
              Inr u \<Rightarrow> completes tid P (emitted s s') (the (tasks s tid)) t'
            | Inl e \<Rightarrow> raising tid e (emitted s s') \<and> only_progress (the (tasks s tid)) t')))"

definition finishing ::
  "string \<Rightarrow> ((string \<times> pyval) list \<Rightarrow> bool) \<Rightarrow> ('w state \<Rightarrow> (exn + unit) \<times> 'w state) \<Rightarrow> bool" where
  "finishing tid P m = (\<forall>s. tasks s tid \<noteq> None \<longrightarrow> finish_post tid P s (m s))"

definition is_full ::
  "search_request \<Rightarrow> string \<Rightarrow> patent list \<Rightarrow> patent list \<Rightarrow> (string \<times> pyval) list \<Rightarrow> bool" where
  "is_full req pasta all_patents patents_list res =
     (\<exists>data_busca. res = full_result req pasta data_busca all_patents patents_list
        (calc_statistics patents_list))"

definition result_for ::
  "search_request \<Rightarrow> string \<Rightarrow> patent list \<Rightarrow> (string \<times> pyval) list \<Rightarrow> bool" where
  "result_for req pasta all_patents res =
     (if remove_duplicates all_patents = [] then res = empty_result
      else \<exists>patents_list. is_full req pasta all_patents patents_list res)"

definition result_shape :: "search_request \<Rightarrow> (string \<times> pyval) list \<Rightarrow> bool" where
  "result_shape req res = (\<exists>pasta all_patents. result_for req pasta all_patents res)"

definition fails :: "string \<Rightarrow> event list \<Rightarrow> task \<Rightarrow> task \<Rightarrow> bool" where
  "fails tid evs t t' =
     (\<exists>evs1 e. evs = evs1 @ [Write tid (SetStatus Failed), Write tid (SetError (str_exn e))] \<and>
        raising tid e evs1 \<and>
        t' = t\<lparr>status := Failed, progress := progress t', error := Some (str_exn e)\<rparr>)"


section \<open>Submission and the registry over time\<close>

text \<open>
  Lines 263--272 of \<open>search_patents\<close>: a new identifier, the task in status \<open>queued\<close>, and
  one run of \<open>execute_search\<close> handed to the background tasks. The function returns the
  identifier of the task it scheduled.
\<close>

definition search_patents :: "'w env \<Rightarrow> search_request \<Rightarrow> 'w state \<Rightarrow> string \<times> 'w state" where
  "search_patents env req s =
     (case uuid4 env (world s) of
        (tid, w1) \<Rightarrow>
          (case now_isoformat env w1 of
             (created, w2) \<Rightarrow>
               (tid,
                s\<lparr>tasks := (tasks s)(tid \<mapsto>
                     \<lparr>task_id = tid, status = Queued, request = req, created_at = created,
                      progress = None, result = None, error = None\<rparr>),
                  world := w2\<rparr>)))"

text \<open>The assignments of a run to the task \<open>tid\<close>, in order.\<close>

fun writes_for :: "string \<Rightarrow> event list \<Rightarrow> task_write list" where
  "writes_for tid [] = []"
| "writes_for tid (Write k wr # evs) =
     (if k = tid then wr # writes_for tid evs else writes_for tid evs)"
| "writes_for tid (Call c r # evs) = writes_for tid evs"

text \<open>
  The workers run in a thread pool, next to the request handlers and to each other, so the
  assignments of different runs interleave. \<open>execute_search\<close> never reads the registry: the
  assignments of a run depend on the request and on what the collaborators answer only.
  The system is therefore the registry together with, for every task, the assignments its
  worker has still to make; a step is a submission or the next assignment of some worker.
  A submission draws an identifier that is not in the registry (\<open>uuid4\<close>); the answers of
  the collaborators to the new worker are those of an arbitrary world \<open>w'\<close>.
\<close>

record sys =
  registry :: "string \<rightharpoonup> task"
  jobs :: "string \<rightharpoonup> task_write list"

definition init_sys :: sys where
  "init_sys = \<lparr>registry = Map.empty, jobs = Map.empty\<rparr>"

inductive step :: "'w env \<Rightarrow> sys \<Rightarrow> sys \<Rightarrow> bool" for env :: "'w env" where
  submit:
    "search_patents env req \<lparr>tasks = registry \<sigma>, world = w, trace = []\<rparr> = (tid, s1) \<Longrightarrow>
     tid \<notin> dom (registry \<sigma>) \<Longrightarrow>
     execute_search env tid req \<lparr>tasks = tasks s1, world = w', trace = []\<rparr> = (r, s2) \<Longrightarrow>
     step env \<sigma> \<lparr>registry = tasks s1, jobs = (jobs \<sigma>)(tid \<mapsto> writes_for tid (trace s2))\<rparr>"
| perform:
    "jobs \<sigma> tid = Some (wr # ws) \<Longrightarrow> registry \<sigma> tid = Some t \<Longrightarrow>
     step env \<sigma> \<lparr>registry = (registry \<sigma>)(tid \<mapsto> apply_write wr t), jobs = (jobs \<sigma>)(tid \<mapsto> ws)\<rparr>"

text \<open>The moves of a status: it stays, or goes from queued to running, or from running to an end.\<close>

definition forward :: "status \<Rightarrow> status \<Rightarrow> bool" where
  "forward a b =
     (a = b \<or> (a = Queued \<and> b = Running) \<or> (a = Running \<and> (b = Completed \<or> b = Failed)))"

text \<open>The order the moves generate: \<open>later a b\<close> when \<open>b\<close> is \<open>a\<close> or comes after it.\<close>

definition later :: "status \<Rightarrow> status \<Rightarrow> bool" where
  "later a b = (a = b \<or> a = Queued \<or> (a = Running \<and> (b = Completed \<or> b = Failed)))"

text \<open>
  The assignments a worker may still make, given the status of its task and whether the
  result and the error are set: progress notes while running, then the final status and
  its payload.
\<close>

fun accepts :: "status \<Rightarrow> bool \<Rightarrow> bool \<Rightarrow> task_write list \<Rightarrow> bool" where
  "accepts st has_res has_err [] =
     ((st = Completed \<and> has_res \<and> \<not> has_err) \<or> (st = Failed \<and> has_err \<and> \<not> has_res))"
| "accepts st has_res has_err (SetStatus st' # ws) =
     (\<not> has_res \<and> \<not> has_err \<and>
      ((st = Queued \<and> st' = Running) \<or> (st = Running \<and> (st' = Completed \<or> st' = Failed))) \<and>
      accepts st' False False ws)"
| "accepts st has_res has_err (SetProgress p # ws) =
     (st = Running \<and> \<not> has_res \<and> \<not> has_err \<and> accepts st False False ws)"
| "accepts st has_res has_err (SetResult res # ws) =
     (st = Completed \<and> \<not> has_res \<and> \<not> has_err \<and> accepts st True False ws)"
| "accepts st has_res has_err (SetError m # ws) =
     (st = Failed \<and> \<not> has_res \<and> \<not> has_err \<and> accepts st False True ws)"

definition sys_inv :: "sys \<Rightarrow> bool" where
  "sys_inv \<sigma> =
     (\<forall>tid t. registry \<sigma> tid = Some t \<longrightarrow>
        (\<exists>ws. jobs \<sigma> tid = Some ws \<and>
           accepts (status t) (result t \<noteq> None) (error t \<noteq> None) ws))"

text \<open>\<open>d[k]\<close> of a dictionary: a \<open>KeyError\<close> for a missing key.\<close>

definition subscript :: "(string \<times> pyval) list \<Rightarrow> string \<Rightarrow> exn + pyval" where
  "subscript d k = (case map_of d k of None \<Rightarrow> Inl (KeyError k) | Some v \<Rightarrow> Inr v)"

text \<open>The system after one submission of a search that finds nothing, and after the first
  assignment of its worker.\<close>

definition demo_writes :: "task_write list" where
  "demo_writes =
     [SetStatus Running, SetProgress ''Initializing scraper...'',
      SetProgress ''Searching patents for term: none'',
      SetProgress ''Executing general search...'',
      SetProgress ''Found 0 unique patents'',
      SetStatus Completed, SetResult empty_result]"

definition demo_sys1 :: sys where
  "demo_sys1 =
     \<lparr>registry = [''task0'' \<mapsto> demo_task ''task0'' (demo_request ''none'')],
      jobs = [''task0'' \<mapsto> demo_writes]\<rparr>"

definition demo_sys2 :: sys where
  "demo_sys2 =
     \<lparr>registry = [''task0'' \<mapsto> (demo_task ''task0'' (demo_request ''none''))\<lparr>status := Running\<rparr>],
      jobs = [''task0'' \<mapsto> tl demo_writes]\<rparr>"

definition demo_sys_end :: sys where
  "demo_sys_end =
     \<lparr>registry = [''task0'' \<mapsto> (demo_task ''task0'' (demo_request ''none''))
         \<lparr>status := Completed, progress := Some ''Found 0 unique patents'',
          result := Some empty_result\<rparr>],
      jobs = [''task0'' \<mapsto> []]\<rparr>"

text \<open>The calls of the stage "save results": the grouping and the two writes.\<close>

fun is_save :: "collab_call \<Rightarrow> bool" where
  "is_save (Agrupar ps) = True"
| "is_save (JsonDump path data) = True"
| "is_save c = False"

fun save_raised :: "exn \<Rightarrow> event \<Rightarrow> bool" where
  "save_raised e (Call c (Raises e')) = (is_save c \<and> e' = e)"
| "save_raised e ev = False"





text \<open>The searches by country of a run, and the batches they returned, in order.\<close>

fun search_calls :: "event list \<Rightarrow> collab_call list" where
  "search_calls [] = []"
| "search_calls (Call (Buscar t c pais l) out # evs) = Buscar t c pais l # search_calls evs"
| "search_calls (ev # evs) = search_calls evs"

fun batches :: "event list \<Rightarrow> patent list list" where
  "batches [] = []"
| "batches (Call (Buscar t c pais l) (ReturnsPatents b) # evs) = b # batches evs"
| "batches (ev # evs) = batches evs"

text \<open>
  A search collaborator that honours the limit and returns, at every call, exactly
  \<open>limit\<close> records never seen before: the world is the number of records handed out, and
  the identifier of record number \<open>i\<close> is \<open>i + 1\<close> times the letter \<open>x\<close>.
\<close>

definition fresh_patents :: "nat \<Rightarrow> nat \<Rightarrow> patent list" where
  "fresh_patents w n = map (\<lambda>i. mk_patent (replicate (Suc i) CHR ''x'')) [w..<w + n]"

definition fresh_env :: "nat env" where
  "fresh_env =
     \<lparr>uuid4 = (\<lambda>w. (''task'', w)),
      now_isoformat = (\<lambda>w. (''2024-01-01T12:00:00'', w)),
      now_strftime = (\<lambda>w. (''20240101_120000'', w)),
      PatentScopeScraper = (\<lambda>b w. (Inr (), w)),
      mkdir = (\<lambda>p w. (Inr (), w)),
      buscar_patentes = (\<lambda>t c pais l w. (Inr (fresh_patents w (nat l)), w + nat l)),
      buscar_patentes_simples = (\<lambda>t l w. (Inr (fresh_patents w (nat l)), w + nat l)),
      enriquecer_patentes_com_detalhes = (\<lambda>ps m w. (Inr ps, w)),
      agrupar_por_publication_number = (\<lambda>ps w. (Inr VNone, w)),
      json_dump = (\<lambda>path data w. (Inr (), w))\<rparr>"

text \<open>
  A stage changes the registry by its assignments to the task \<open>tid\<close>, in the order of
  its trace, and by nothing else.
\<close>

definition replays :: "string \<Rightarrow> ('w state \<Rightarrow> (exn + 'a) \<times> 'w state) \<Rightarrow> bool" where
  "replays tid m =
     (\<forall>s t. tasks s tid = Some t \<longrightarrow>
        (case m s of (r, s') \<Rightarrow>
           trace s' = trace s @ emitted s s' \<and>
           tasks s' = (tasks s)(tid \<mapsto> fold apply_write (writes_for tid (emitted s s')) t)))"


text \<open>The system while the worker of \<open>task0\<close> is between lines 129 and 130.\<close>

definition demo_sys_mid :: sys where
  "demo_sys_mid =
     \<lparr>registry = [''task0'' \<mapsto> (demo_task ''task0'' (demo_request ''none''))
         \<lparr>status := Completed, progress := Some ''Found 0 unique patents''\<rparr>],
      jobs = [''task0'' \<mapsto> [SetResult empty_result]]\<rparr>"

text \<open>
  A run in the concrete world with enrichment requested: the enrichment writes a title into
  the two records that survive deduplication and raises.
\<close>

definition demo_request_details :: search_request where
  "demo_request_details = (demo_request ''aspirin'')\<lparr>get_details := True\<rparr>"

definition demo_run_details :: "(exn + unit) \<times> demo_world state" where
  "demo_run_details =
     execute_search demo_env ''t1'' demo_request_details (demo_state ''t1'' demo_request_details)"

definition touched :: "patent \<Rightarrow> patent" where
  "touched p = p\<lparr>title := Some ''partial''\<rparr>"

section \<open>Paths: proofs\<close>


lemma split_sep_no_sep: "CHR ''/'' \<notin> set s \<Longrightarrow> split_sep s = [s]"
  by (induction s) auto

lemma results_dir_simple:
  assumes "CHR ''/'' \<notin> set trm" and "CHR ''/'' \<notin> set timestamp"
  shows "results_dir trm timestamp = ''resultados/patentscope_'' @ trm @ ''_'' @ timestamp"
proof -
  have "CHR ''/'' \<notin> set (run_name trm timestamp)"
    using assms by (simp add: run_name_def)
  then have "split_sep (run_name trm timestamp) = [run_name trm timestamp]"
    by (rule split_sep_no_sep)
  moreover have "run_name trm timestamp \<noteq> []" and "run_name trm timestamp \<noteq> ''.''"
    by (simp_all add: run_name_def)
  ultimately have "path_parts (run_name trm timestamp) = [run_name trm timestamp]"
    by (simp add: path_parts_def)
  then show ?thesis
    by (simp add: results_dir_def run_name_def)
qed






section \<open>Deduplication: proofs\<close>

lemma dict_set_new: "k \<notin> set (map fst d) \<Longrightarrow> dict_set d k v = d @ [(k, v)]"
  by (induction d) auto

lemma dedup_loop_keep_first:
  "dedup_loop acc xs = acc @ map (\<lambda>p. (pub_id p, p)) (keep_first (set (map fst acc)) xs)"
proof (induction xs arbitrary: acc)
  case Nil
  then show ?case by simp
next
  case (Cons p ps)
  show ?case
  proof (cases "pub_id p \<noteq> [] \<and> pub_id p \<notin> set (map fst acc)")
    case True
    then have "dedup_loop acc (p # ps) = dedup_loop (acc @ [(pub_id p, p)]) ps"
      by (simp add: pub_id_def dict_contains_def dict_set_new Let_def)
    also have "\<dots> = (acc @ [(pub_id p, p)]) @
        map (\<lambda>p. (pub_id p, p)) (keep_first (set (map fst (acc @ [(pub_id p, p)]))) ps)"
      by (rule Cons.IH)
    finally show ?thesis using True by simp
  next
    case False
    then have "dedup_loop acc (p # ps) = dedup_loop acc ps"
      by (auto simp add: pub_id_def dict_contains_def Let_def)
    then show ?thesis using False Cons.IH [of acc] by auto
  qed
qed

lemma remove_duplicates_keep_first: "remove_duplicates xs = keep_first {} xs"
  by (simp add: remove_duplicates_def dict_values_def dedup_loop_keep_first comp_def)

lemma keep_first_index:
  "keep_first seen xs =
     map (\<lambda>i. xs ! i)
       (filter (\<lambda>i. pub_id (xs ! i) \<noteq> [] \<and> pub_id (xs ! i) \<notin> seen \<union> set (map pub_id (take i xs)))
          [0..<length xs])"
proof (induction xs arbitrary: seen)
  case Nil
  then show ?case by simp
next
  case (Cons p ps)
  have upt: "[0..<length (p # ps)] = 0 # map Suc [0..<length ps]"
    by (simp add: upt_conv_Cons map_Suc_upt del: upt_Suc)
  show ?case
    unfolding upt
    by (auto simp add: Cons.IH filter_map comp_def simp del: upt_Suc intro!: map_cong filter_cong)
qed

lemma remove_duplicates_first_records: "remove_duplicates xs = first_records xs"
  by (simp add: remove_duplicates_keep_first keep_first_index first_records_def first_bearing_def [abs_def])

lemma keep_first_subseq: "subseq (keep_first seen xs) xs"
  by (induction xs arbitrary: seen) auto

lemma keep_first_ids: "set (map pub_id (keep_first seen xs)) \<inter> seen = {}"
  by (induction xs arbitrary: seen) auto

lemma keep_first_distinct: "distinct (map pub_id (keep_first seen xs))"
proof (induction xs arbitrary: seen)
  case Nil
  then show ?case by simp
next
  case (Cons p ps)
  then show ?case using keep_first_ids [of "insert (pub_id p) seen" ps] by auto
qed

lemma keep_first_nonempty: "[] \<notin> set (map pub_id (keep_first seen xs))"
  by (induction xs arbitrary: seen) auto

lemma keep_first_length: "length (keep_first seen xs) \<le> length xs"
  by (induction xs arbitrary: seen) (auto simp: le_SucI)

lemma keep_first_set:
  "set (map pub_id (keep_first seen xs)) = set (map pub_id xs) - seen - {[]}"
  by (induction xs arbitrary: seen) auto

lemma keep_first_fixed:
  "distinct (map pub_id xs) \<Longrightarrow> [] \<notin> set (map pub_id xs) \<Longrightarrow> set (map pub_id xs) \<inter> seen = {}
     \<Longrightarrow> keep_first seen xs = xs"
proof (induction xs arbitrary: seen)
  case Nil
  then show ?case by simp
next
  case (Cons p ps)
  from Cons.prems have "set (map pub_id ps) \<inter> insert (pub_id p) seen = {}"
    by auto
  with Cons.prems have "keep_first (insert (pub_id p) seen) ps = ps"
    by (intro Cons.IH) auto
  with Cons.prems show ?case by auto
qed

lemma keep_first_idem: "keep_first {} (keep_first {} xs) = keep_first {} xs"
  by (intro keep_first_fixed keep_first_distinct keep_first_nonempty) simp

section \<open>Statistics: proofs\<close>

lemma map_of_dict_set: "map_of (dict_set d k v) = (map_of d)(k \<mapsto> v)"
  by (induction d) (auto simp: fun_eq_iff)

lemma keys_dict_set:
  "map fst (dict_set d k v) = (if k \<in> set (map fst d) then map fst d else map fst d @ [k])"
  by (induction d) force+

lemma distinct_dict_set: "distinct (map fst d) \<Longrightarrow> distinct (map fst (dict_set d k v))"
  by (simp add: keys_dict_set)

lemma sum_increment: "sum_list (map snd (increment t k)) = sum_list (map snd t) + 1"
  unfolding increment_def dict_get_def
  by (induction t) auto

lemma map_of_increment:
  "map_of (increment t k) c = (if c = k then Some (dict_get t k 0 + 1) else map_of t c)"
  by (simp add: increment_def map_of_dict_set)

lemma dict_get_increment:
  "dict_get (increment t k) c 0 = (if c = k then dict_get t k 0 + 1 else dict_get t c 0)"
  by (simp add: dict_get_def map_of_increment)

lemma distinct_increment: "distinct (map fst t) \<Longrightarrow> distinct (map fst (increment t k))"
  by (simp add: increment_def distinct_dict_set)

lemma count_por_pais_distinct:
  "distinct (map fst acc) \<Longrightarrow> distinct (map fst (count_por_pais acc ps))"
  by (induction ps arbitrary: acc) (auto simp: Let_def distinct_increment)

lemma count_por_pais_sum:
  "sum_list (map snd (count_por_pais acc ps)) =
     sum_list (map snd acc) + int (length (filter (\<lambda>p. 2 \<le> length (pub_id p)) ps))"
  by (induction ps arbitrary: acc) (auto simp: Let_def sum_increment pub_id_def)

lemma count_por_pais_lookup:
  "map_of (count_por_pais acc ps) c =
     (if country_count ps c = 0 then map_of acc c
      else Some (dict_get acc c 0 + int (country_count ps c)))"
proof (induction ps arbitrary: acc)
  case Nil
  then show ?case by (simp add: country_count_def)
next
  case (Cons p ps)
  show ?case
  proof (cases "2 \<le> length (pub_id p)")
    case True
    then have step: "count_por_pais acc (p # ps) = count_por_pais (increment acc (take 2 (pub_id p))) ps"
      by (auto simp: Let_def pub_id_def)
    show ?thesis
      unfolding step Cons.IH
      using True
      by (auto simp: country_count_def map_of_increment dict_get_increment)
  next
    case False
    then have step: "count_por_pais acc (p # ps) = count_por_pais acc ps"
      by (auto simp: Let_def pub_id_def)
    show ?thesis
      unfolding step Cons.IH
      using False by (simp add: country_count_def)
  qed
qed


section \<open>The worker: proofs\<close>

lemma only_progress_refl: "only_progress t t"
  by (simp add: only_progress_def)

lemma only_progress_trans: "only_progress t t1 \<Longrightarrow> only_progress t1 t2 \<Longrightarrow> only_progress t t2"
  unfolding only_progress_def by (cases t, cases t1, cases t2) auto

lemma raising_append: "list_all (quiet tid) evs \<Longrightarrow> raising tid e evs' \<Longrightarrow> raising tid e (evs @ evs')"
proof (induction evs)
  case Nil
  then show ?case by simp
next
  case (Cons a evs)
  then have "raising tid e (evs @ evs')" by simp
  moreover from this have "evs @ evs' \<noteq> []" by auto
  ultimately show ?case using Cons.prems(1) by (cases "evs @ evs'") auto
qed

lemma stage_ok_ret: "stage_ok tid (ret v)"
  by (auto simp: stage_ok_def stage_post_def ret_def emitted_def only_progress_refl)

lemma stage_ok_ask: "stage_ok tid (ask f)"
  by (auto simp: stage_ok_def stage_post_def ask_def emitted_def only_progress_refl split: prod.splits)

lemma stage_ok_progress: "stage_ok tid (write_task tid (SetProgress x))"
  by (auto simp: stage_ok_def stage_post_def write_task_def emitted_def only_progress_def)

lemma stage_ok_invoke:
  assumes "\<not> is_enrich c" and "\<And>v e. shown v \<noteq> Raises e"
  shows "stage_ok tid (invoke c shown f)"
proof -
  have q: "quiet tid (Call c (shown v))" for v
    using assms(2) [of v] by (cases "shown v") auto
  show ?thesis
    using assms(1) q
    by (auto simp: stage_ok_def stage_post_def invoke_def emitted_def only_progress_refl
        split: prod.splits sum.splits)
qed

lemma stage_ok_bind:
  assumes "stage_ok tid m" and "\<And>v. stage_ok tid (f v)"
  shows "stage_ok tid (bind_exn m f)"
  unfolding stage_ok_def
proof (intro allI impI)
  fix s :: "'a state"
  assume ex: "tasks s tid \<noteq> None"
  obtain r s1 where m: "m s = (r, s1)" by (cases "m s")
  from assms(1) ex m have p1: "stage_post tid s (r, s1)"
    unfolding stage_ok_def by metis
  show "stage_post tid s (bind_exn m f s)"
  proof (cases r)
    case (Inl e)
    with p1 m show ?thesis by (simp add: bind_exn_def stage_post_def)
  next
    case (Inr v)
    from p1 have ex1: "tasks s1 tid \<noteq> None"
      by (auto simp: stage_post_def)
    obtain r2 s2 where f: "f v s1 = (r2, s2)" by (cases "f v s1")
    from assms(2) [of v] ex1 f have p2: "stage_post tid s1 (r2, s2)"
      unfolding stage_ok_def by metis
    from p1 Inr have t1: "trace s1 = trace s @ emitted s s1" and q1: "list_all (quiet tid) (emitted s s1)"
      by (auto simp: stage_post_def)
    from p2 have t2: "trace s2 = trace s1 @ emitted s1 s2"
      by (auto simp: stage_post_def)
    have em: "emitted s s2 = emitted s s1 @ emitted s1 s2"
      using t1 t2 by (metis append.assoc append_eq_conv_conj emitted_def)
    have tr: "trace s2 = trace s @ emitted s s2"
      using t1 t2 em by simp
    have sh: "case r2 of Inr v \<Rightarrow> list_all (quiet tid) (emitted s s2)
                 | Inl e \<Rightarrow> raising tid e (emitted s s2)"
      using p2 q1 by (auto simp: stage_post_def em raising_append split: sum.splits)
    have fr: "\<forall>k. k \<noteq> tid \<longrightarrow> tasks s2 k = tasks s k"
      using p1 p2 by (auto simp: stage_post_def)
    have pr: "\<exists>t'. tasks s2 tid = Some t' \<and> only_progress (the (tasks s tid)) t'"
      using p1 p2 by (auto simp: stage_post_def intro: only_progress_trans)
    show ?thesis
      using tr sh fr pr by (simp add: bind_exn_def m Inr f stage_post_def)
  qed
qed


lemma search_countries_Nil: "search_countries env tid req [] acc = ret acc"
  by (rule ext) (simp add: ret_def)

lemma search_countries_Cons:
  "search_countries env tid req (pais # rest) acc =
     bind_exn (write_task tid (SetProgress (''Searching in '' @ pais @ ''...''))) (\<lambda>_.
     bind_exn (invoke (Buscar (search_term req) ''all'' pais (limit req)) ReturnsPatents
                 (buscar_patentes env (search_term req) ''all'' pais (limit req))) (\<lambda>patents.
     search_countries env tid req rest
       (acc @ map (\<lambda>p. p\<lparr>pais_filtro := Some pais\<rparr>) patents)))"
  by (rule ext) (simp add: bind_exn_def split: prod.splits sum.splits)

lemma stage_ok_search_countries: "stage_ok tid (search_countries env tid req cs acc)"
proof (induction cs arbitrary: acc)
  case Nil
  show ?case by (simp only: search_countries_Nil stage_ok_ret)
next
  case (Cons pais rest)
  show ?case
    unfolding search_countries_Cons
    by (intro stage_ok_bind stage_ok_progress stage_ok_invoke Cons.IH) simp_all
qed

lemma stage_ok_search_stage: "stage_ok tid (search_stage env tid req)"
  unfolding search_stage_def
  by (auto intro!: stage_ok_bind stage_ok_progress stage_ok_invoke stage_ok_search_countries)

lemma stage_ok_enrich_call:
  "stage_ok tid (\<lambda>s. case f (world s) of
            (Inr enriched, w') \<Rightarrow>
              (Inr enriched,
               s\<lparr>world := w',
                 trace := trace s @ [Call (Enriquecer ps md) (ReturnsPatents enriched)]\<rparr>)
          | (Inl (e, left), w') \<Rightarrow>
              bind_exn (write_task tid (SetProgress (msg e))) (\<lambda>_. ret left)
                (s\<lparr>world := w', trace := trace s @ [Call (Enriquecer ps md) (Raises e)]\<rparr>))"
  by (auto simp: stage_ok_def stage_post_def emitted_def only_progress_def
      bind_exn_def write_task_def ret_def split: prod.splits sum.splits)

lemma stage_ok_enrich_stage: "stage_ok tid (enrich_stage env tid req ps)"
  unfolding enrich_stage_def
  by (auto intro!: stage_ok_bind stage_ok_progress stage_ok_ret stage_ok_enrich_call)


lemma completes_append:
  "list_all (quiet tid) evs \<Longrightarrow> only_progress t t1 \<Longrightarrow> completes tid P evs' t1 t2
     \<Longrightarrow> completes tid P (evs @ evs') t t2"
  unfolding completes_def only_progress_def
  apply clarify
  subgoal for evs0 res
    apply (rule exI [of _ "evs @ evs0"], rule exI [of _ res])
    apply (cases t, cases t1, cases t2)
    apply auto
    done
  done

lemma completes_mono: "completes tid P evs t t' \<Longrightarrow> (\<And>res. P res \<Longrightarrow> Q res) \<Longrightarrow> completes tid Q evs t t'"
  unfolding completes_def by blast

lemma finishing_mono:
  assumes "finishing tid P m" and "\<And>res. P res \<Longrightarrow> Q res"
  shows "finishing tid Q m"
  unfolding finishing_def
proof (intro allI impI)
  fix s :: "'a state"
  assume "tasks s tid \<noteq> None"
  with assms(1) have p: "finish_post tid P s (m s)"
    unfolding finishing_def by blast
  obtain r s' where m: "m s = (r, s')" by (cases "m s")
  show "finish_post tid Q s (m s)"
    using p assms(2) unfolding m finish_post_def
    by (cases r) (auto intro: completes_mono)
qed

lemma finishing_complete:
  assumes "P res"
  shows "finishing tid P (bind_exn (write_task tid (SetStatus Completed)) (\<lambda>_.
           write_task tid (SetResult res)))"
  using assms
  by (auto simp: finishing_def finish_post_def bind_exn_def write_task_def emitted_def
      completes_def)

lemma finishing_bind:
  assumes "stage_ok tid m" and "\<And>v. finishing tid P (f v)"
  shows "finishing tid P (bind_exn m f)"
  unfolding finishing_def
proof (intro allI impI)
  fix s :: "'a state"
  assume ex: "tasks s tid \<noteq> None"
  obtain r s1 where m: "m s = (r, s1)" by (cases "m s")
  from assms(1) ex m have p1: "stage_post tid s (r, s1)"
    unfolding stage_ok_def by metis
  show "finish_post tid P s (bind_exn m f s)"
  proof (cases r)
    case (Inl e)
    with p1 m show ?thesis by (simp add: bind_exn_def stage_post_def finish_post_def)
  next
    case (Inr v)
    from p1 have ex1: "tasks s1 tid \<noteq> None"
      by (auto simp: stage_post_def)
    obtain r2 s2 where f: "f v s1 = (r2, s2)" by (cases "f v s1")
    from assms(2) [of v] ex1 f have p2: "finish_post tid P s1 (r2, s2)"
      unfolding finishing_def by metis
    from p1 Inr have t1: "trace s1 = trace s @ emitted s s1" and q1: "list_all (quiet tid) (emitted s s1)"
      by (auto simp: stage_post_def)
    from p1 obtain ta where ta: "tasks s1 tid = Some ta" "only_progress (the (tasks s tid)) ta"
      by (auto simp: stage_post_def)
    from p2 have t2: "trace s2 = trace s1 @ emitted s1 s2"
      by (auto simp: finish_post_def)
    have em: "emitted s s2 = emitted s s1 @ emitted s1 s2"
      using t1 t2 by (metis append.assoc append_eq_conv_conj emitted_def)
    have tr: "trace s2 = trace s @ emitted s s2"
      using t1 t2 em by simp
    have fr: "\<forall>k. k \<noteq> tid \<longrightarrow> tasks s2 k = tasks s k"
      using p1 p2 by (auto simp: stage_post_def finish_post_def)
    from p2 obtain tb where tb0: "tasks s2 tid = Some tb \<and>
      (case r2 of Inr u \<Rightarrow> completes tid P (emitted s1 s2) (the (tasks s1 tid)) tb
            | Inl e \<Rightarrow> raising tid e (emitted s1 s2) \<and> only_progress (the (tasks s1 tid)) tb)"
      unfolding finish_post_def by auto
    then have tb: "tasks s2 tid = Some tb"
      "case r2 of Inr u \<Rightarrow> completes tid P (emitted s1 s2) ta tb
            | Inl e \<Rightarrow> raising tid e (emitted s1 s2) \<and> only_progress ta tb"
      using ta(1) by (auto split: sum.splits)
    have sh: "case r2 of Inr u \<Rightarrow> completes tid P (emitted s s2) (the (tasks s tid)) tb
            | Inl e \<Rightarrow> raising tid e (emitted s s2) \<and> only_progress (the (tasks s tid)) tb"
      using tb(2) q1 ta(2)
      by (auto simp: em split: sum.splits intro: completes_append raising_append only_progress_trans)
    show ?thesis
      using tr sh fr tb(1) by (simp add: bind_exn_def m Inr f finish_post_def)
  qed
qed

lemma finishing_save_and_complete:
  "finishing tid (is_full req pasta all_patents pl)
     (save_and_complete env tid req pasta all_patents pl (calc_statistics pl))"
  unfolding save_and_complete_def
  by (intro finishing_bind finishing_complete stage_ok_progress stage_ok_invoke stage_ok_ask)
     (auto simp: is_full_def)

lemma finishing_process_results:
  "finishing tid (result_for req pasta all_patents) (process_results env tid req pasta all_patents)"
proof (cases "remove_duplicates all_patents = []")
  case True
  then show ?thesis
    unfolding process_results_def
    by (intro finishing_bind stage_ok_progress) (simp add: finishing_complete result_for_def)
next
  case False
  have "finishing tid (result_for req pasta all_patents)
      (save_and_complete env tid req pasta all_patents pl (calc_statistics pl))" for pl
    using finishing_save_and_complete
    by (rule finishing_mono) (auto simp: result_for_def False)
  with False show ?thesis
    unfolding process_results_def
    by (intro finishing_bind stage_ok_progress) (simp add: finishing_bind stage_ok_enrich_stage)
qed


lemma bind_exn_assoc: "bind_exn (bind_exn m f) g = bind_exn m (\<lambda>v. bind_exn (f v) g)"
  by (rule ext) (simp add: bind_exn_def split: prod.splits sum.splits)

lemma try_body_running:
  "\<exists>R. try_body env tid req = bind_exn (write_task tid (SetStatus Running)) (\<lambda>_. R) \<and>
       finishing tid (result_shape req) R"
  unfolding try_body_def prepare_def bind_exn_assoc
  apply (rule exI, rule conjI, rule refl)
  apply (intro finishing_bind stage_ok_progress stage_ok_invoke stage_ok_ask stage_ok_ret
      stage_ok_search_stage)
      apply simp_all
  apply (rule finishing_mono [OF finishing_process_results])
  apply (auto simp: result_shape_def)
  done

lemma execute_search_shape:
  assumes "tasks s tid = Some t"
  shows "\<exists>s' evs t'. execute_search env tid req s = (Inr (), s') \<and>
           trace s' = trace s @ Write tid (SetStatus Running) # evs \<and>
           (\<forall>k. k \<noteq> tid \<longrightarrow> tasks s' k = tasks s k) \<and>
           tasks s' tid = Some t' \<and>
           (completes tid (result_shape req) evs (t\<lparr>status := Running\<rparr>) t' \<or>
            fails tid evs (t\<lparr>status := Running\<rparr>) t')"
proof -
  obtain R where R: "try_body env tid req = bind_exn (write_task tid (SetStatus Running)) (\<lambda>_. R)"
    and fin: "finishing tid (result_shape req) R"
    using try_body_running by blast
  define s0 where "s0 = s\<lparr>tasks := (tasks s)(tid \<mapsto> t\<lparr>status := Running\<rparr>),
      trace := trace s @ [Write tid (SetStatus Running)]\<rparr>"
  have w: "write_task tid (SetStatus Running) s = (Inr (), s0)"
    using assms by (simp add: write_task_def s0_def)
  obtain r s1 where r: "R s0 = (r, s1)" by (cases "R s0")
  have tb: "try_body env tid req s = (r, s1)"
    by (simp add: R bind_exn_def w r)
  have "tasks s0 tid \<noteq> None" by (simp add: s0_def)
  with fin r have post: "finish_post tid (result_shape req) s0 (r, s1)"
    unfolding finishing_def by metis
  then have tr1: "trace s1 = trace s @ Write tid (SetStatus Running) # emitted s0 s1"
    and fr1: "\<forall>k. k \<noteq> tid \<longrightarrow> tasks s1 k = tasks s k"
    by (auto simp: finish_post_def s0_def)
  have t0: "the (tasks s0 tid) = t\<lparr>status := Running\<rparr>"
    by (simp add: s0_def)
  from post obtain t1 where t1': "tasks s1 tid = Some t1 \<and>
      (case r of Inr u \<Rightarrow> completes tid (result_shape req) (emitted s0 s1) (the (tasks s0 tid)) t1
            | Inl e \<Rightarrow> raising tid e (emitted s0 s1) \<and> only_progress (the (tasks s0 tid)) t1)"
    unfolding finish_post_def by auto
  then have t1: "tasks s1 tid = Some t1"
    and sh: "case r of Inr u \<Rightarrow> completes tid (result_shape req) (emitted s0 s1) (t\<lparr>status := Running\<rparr>) t1
            | Inl e \<Rightarrow> raising tid e (emitted s0 s1) \<and> only_progress (t\<lparr>status := Running\<rparr>) t1"
    unfolding t0 by simp_all
  show ?thesis
  proof (cases r)
    case (Inr u)
    then show ?thesis
      using tb tr1 fr1 t1 sh by (auto simp: execute_search_def)
  next
    case (Inl e)
    define s2 where "s2 = s1\<lparr>tasks := (tasks s1)(tid \<mapsto> t1\<lparr>status := Failed, error := Some (str_exn e)\<rparr>),
      trace := trace s1 @ [Write tid (SetStatus Failed), Write tid (SetError (str_exn e))]\<rparr>"
    have ex: "execute_search env tid req s = (Inr (), s2)"
      using t1 by (simp add: execute_search_def tb Inl bind_exn_def write_task_def s2_def)
    from sh Inl have ra: "raising tid e (emitted s0 s1)"
      and op: "only_progress (t\<lparr>status := Running\<rparr>) t1"
      by simp_all
    have "fails tid (emitted s0 s1 @ [Write tid (SetStatus Failed), Write tid (SetError (str_exn e))])
        (t\<lparr>status := Running\<rparr>) (t1\<lparr>status := Failed, error := Some (str_exn e)\<rparr>)"
      unfolding fails_def
      apply (rule exI [of _ "emitted s0 s1"], rule exI [of _ e])
      using ra op unfolding only_progress_def
      apply (cases t, cases t1)
      apply auto
      done
    then show ?thesis
      using ex tr1 fr1 by (auto simp: s2_def)
  qed
qed


section \<open>The registry over time: proofs\<close>

lemma writes_for_append: "writes_for tid (xs @ ys) = writes_for tid xs @ writes_for tid ys"
  by (induction tid xs rule: writes_for.induct) auto

lemma accepts_quiet:
  "list_all (quiet tid) evs \<Longrightarrow>
     accepts Running False False (writes_for tid evs @ ws) = accepts Running False False ws"
proof (induction evs)
  case Nil
  then show ?case by simp
next
  case (Cons ev evs)
  then show ?case
    by (cases "(tid, ev)" rule: quiet.cases) auto
qed

lemma raising_writes:
  "raising tid e evs \<Longrightarrow>
     accepts Running False False (writes_for tid evs @ ws) = accepts Running False False ws"
proof (induction tid e evs rule: raising.induct)
  case (1 tid e)
  then show ?case by simp
next
  case (2 tid e ev)
  then show ?case by auto
next
  case (3 tid e ev v va)
  from 3 have "quiet tid ev" and "raising tid e (v # va)" by simp_all
  with "3.IH" have "accepts Running False False (writes_for tid (v # va) @ ws) =
      accepts Running False False ws"
    by simp
  moreover have "accepts Running False False (writes_for tid (ev # v # va) @ ws) =
      accepts Running False False (writes_for tid (v # va) @ ws)"
    using \<open>quiet tid ev\<close> accepts_quiet [of tid "[ev]" "writes_for tid (v # va) @ ws"]
    by (simp add: writes_for_append [of tid "[ev]" "v # va", simplified])
  ultimately show ?case by simp
qed

lemma worker_script:
  assumes "tasks s tid = Some t" and "trace s = []"
    and "execute_search env tid req s = (r, s')"
  shows "accepts Queued False False (writes_for tid (trace s'))"
proof -
  from execute_search_shape [OF assms(1), of env req] assms(2,3)
  obtain evs t' where tr: "trace s' = Write tid (SetStatus Running) # evs"
    and sh: "completes tid (result_shape req) evs (t\<lparr>status := Running\<rparr>) t' \<or>
             fails tid evs (t\<lparr>status := Running\<rparr>) t'"
    by auto
  from sh have "accepts Running False False (writes_for tid evs)"
  proof
    assume "completes tid (result_shape req) evs (t\<lparr>status := Running\<rparr>) t'"
    then obtain evs0 res where "evs = evs0 @ [Write tid (SetStatus Completed), Write tid (SetResult res)]"
      and "list_all (quiet tid) evs0"
      unfolding completes_def by blast
    then show ?thesis
      by (simp add: writes_for_append accepts_quiet)
  next
    assume "fails tid evs (t\<lparr>status := Running\<rparr>) t'"
    then obtain evs1 e where "evs = evs1 @ [Write tid (SetStatus Failed), Write tid (SetError (str_exn e))]"
      and "raising tid e evs1"
      unfolding fails_def by blast
    then show ?thesis
      by (simp add: writes_for_append raising_writes)
  qed
  then show ?thesis by (simp add: tr)
qed

lemma accepts_step:
  assumes "accepts (status t) (result t \<noteq> None) (error t \<noteq> None) (wr # ws)"
  shows "accepts (status (apply_write wr t)) (result (apply_write wr t) \<noteq> None)
           (error (apply_write wr t) \<noteq> None) ws \<and>
         forward (status t) (status (apply_write wr t))"
  using assms by (cases wr) (auto simp: forward_def)

lemma accepts_payload:
  assumes "accepts st has_res has_err ws"
  shows "(has_res \<longrightarrow> st = Completed) \<and> (has_err \<longrightarrow> st = Failed) \<and>
         (st = Completed \<and> \<not> has_res \<longrightarrow> (\<exists>res ws'. ws = SetResult res # ws')) \<and>
         (st = Failed \<and> \<not> has_err \<longrightarrow> (\<exists>m ws'. ws = SetError m # ws'))"
proof (cases ws)
  case Nil
  with assms show ?thesis by auto
next
  case (Cons wr ws')
  with assms show ?thesis by (cases wr) auto
qed

lemma sys_inv_init: "sys_inv init_sys"
  by (simp add: sys_inv_def init_sys_def)

lemma search_patents_new:
  assumes "search_patents env req s = (tid, s1)"
  shows "\<exists>created w2. s1 = s\<lparr>tasks := (tasks s)(tid \<mapsto>
                     \<lparr>task_id = tid, status = Queued, request = req, created_at = created,
                      progress = None, result = None, error = None\<rparr>),
                  world := w2\<rparr>"
  using assms by (auto simp: search_patents_def split: prod.splits)

lemma sys_inv_step:
  assumes "sys_inv \<sigma>" and "step env \<sigma> \<sigma>'"
  shows "sys_inv \<sigma>'"
  using assms(2)
proof cases
  case (submit req w tid s1 w' r s2)
  from search_patents_new [OF submit(2)] obtain created w2 where
    s1: "tasks s1 = (registry \<sigma>)(tid \<mapsto>
                     \<lparr>task_id = tid, status = Queued, request = req, created_at = created,
                      progress = None, result = None, error = None\<rparr>)"
    by auto
  have "accepts Queued False False (writes_for tid (trace s2))"
    by (rule worker_script [OF _ _ submit(4)]) (simp_all add: s1)
  then show ?thesis
    using assms(1) unfolding submit(1) sys_inv_def
    by (auto simp: s1)
next
  case (perform tid wr ws t)
  from assms(1) perform(2,3)
  have "accepts (status t) (result t \<noteq> None) (error t \<noteq> None) (wr # ws)"
    unfolding sys_inv_def by fastforce
  from accepts_step [OF this] show ?thesis
    using assms(1) unfolding perform(1) sys_inv_def
    by auto
qed

lemma sys_inv_reachable:
  assumes "(step env)\<^sup>*\<^sup>* init_sys \<sigma>"
  shows "sys_inv \<sigma>"
  using assms by (induction rule: rtranclp_induct) (auto intro: sys_inv_init sys_inv_step)

lemma step_forward:
  assumes "sys_inv \<sigma>" and "step env \<sigma> \<sigma>'"
  shows "case registry \<sigma> tid of
           None \<Rightarrow> (\<forall>t'. registry \<sigma>' tid = Some t' \<longrightarrow> status t' = Queued)
         | Some t \<Rightarrow> (\<exists>t'. registry \<sigma>' tid = Some t' \<and> forward (status t) (status t'))"
  using assms(2)
proof cases
  case (submit req w k s1 w' r s2)
  from search_patents_new [OF submit(2)] obtain created w2 where
    s1: "tasks s1 = (registry \<sigma>)(k \<mapsto>
                     \<lparr>task_id = k, status = Queued, request = req, created_at = created,
                      progress = None, result = None, error = None\<rparr>)"
    by auto
  show ?thesis
    using submit(3) unfolding submit(1)
    by (auto simp: s1 forward_def split: option.splits)
next
  case (perform k wr ws t)
  from assms(1) perform(2,3)
  have "accepts (status t) (result t \<noteq> None) (error t \<noteq> None) (wr # ws)"
    unfolding sys_inv_def by fastforce
  from accepts_step [OF this] show ?thesis
    using perform(3) unfolding perform(1)
    by (auto simp: forward_def split: option.splits)
qed

lemma forward_later: "later a b \<Longrightarrow> forward b c \<Longrightarrow> later a c"
  by (auto simp: later_def forward_def)

lemma steps_later:
  assumes "(step env)\<^sup>*\<^sup>* \<sigma> \<sigma>'" and "sys_inv \<sigma>" and "registry \<sigma> tid = Some t"
  shows "sys_inv \<sigma>' \<and> (\<exists>t'. registry \<sigma>' tid = Some t' \<and> later (status t) (status t'))"
  using assms
proof (induction rule: rtranclp_induct)
  case base
  then show ?case by (simp add: later_def)
next
  case (step \<sigma>1 \<sigma>2)
  then obtain t1 where inv1: "sys_inv \<sigma>1" and t1: "registry \<sigma>1 tid = Some t1"
    and l1: "later (status t) (status t1)"
    by auto
  from step_forward [OF inv1 step.hyps(2), of tid] t1
  obtain t2 where "registry \<sigma>2 tid = Some t2" "forward (status t1) (status t2)"
    by auto
  with l1 sys_inv_step [OF inv1 step.hyps(2)] show ?case
    by (auto intro: forward_later)
qed


lemma run_to_end:
  assumes "jobs \<sigma> tid = Some ws" and "registry \<sigma> tid = Some t"
  shows "(step env)\<^sup>*\<^sup>* \<sigma>
           \<lparr>registry = (registry \<sigma>)(tid \<mapsto> fold apply_write ws t), jobs = (jobs \<sigma>)(tid \<mapsto> [])\<rparr>"
  using assms
proof (induction ws arbitrary: \<sigma> t)
  case Nil
  then have "(registry \<sigma>)(tid \<mapsto> t) = registry \<sigma>" and "(jobs \<sigma>)(tid \<mapsto> []) = jobs \<sigma>"
    by (auto simp: fun_eq_iff)
  then show ?case by (cases \<sigma>) simp
next
  case (Cons wr ws)
  let ?\<sigma>1 = "\<lparr>registry = (registry \<sigma>)(tid \<mapsto> apply_write wr t), jobs = (jobs \<sigma>)(tid \<mapsto> ws)\<rparr>"
  have "step env \<sigma> ?\<sigma>1"
    using Cons.prems by (rule step.perform)
  moreover have "(step env)\<^sup>*\<^sup>* ?\<sigma>1
      \<lparr>registry = (registry ?\<sigma>1)(tid \<mapsto> fold apply_write ws (apply_write wr t)),
       jobs = (jobs ?\<sigma>1)(tid \<mapsto> [])\<rparr>"
    by (rule Cons.IH) (simp_all only: sys.select_convs fun_upd_same)
  ultimately have "(step env)\<^sup>*\<^sup>* \<sigma>
      \<lparr>registry = (registry ?\<sigma>1)(tid \<mapsto> fold apply_write ws (apply_write wr t)),
       jobs = (jobs ?\<sigma>1)(tid \<mapsto> [])\<rparr>"
    by (rule converse_rtranclp_into_rtranclp)
  then show ?case
    by (simp only: sys.select_convs fun_upd_upd fold_simps o_apply)
qed

lemma str_nat_0: "str_nat 0 = ''0''"
  by code_simp

lemma demo_submit: "step demo_env init_sys demo_sys1"
proof -
  define w0 where "w0 = \<lparr>files = [], counter = 0\<rparr>"
  define s1 where "s1 = \<lparr>tasks = [''task0'' \<mapsto> demo_task ''task0'' (demo_request ''none'')],
    world = w0\<lparr>counter := 1\<rparr>, trace = []\<rparr>"
  have sp: "search_patents demo_env (demo_request ''none'')
      \<lparr>tasks = registry init_sys, world = w0, trace = []\<rparr> = (''task0'', s1)"
    by (simp add: search_patents_def demo_env_def init_sys_def w0_def s1_def demo_task_def
        str_nat_0)
  obtain r s2 where ex: "execute_search demo_env ''task0'' (demo_request ''none'')
      \<lparr>tasks = tasks s1, world = w0, trace = []\<rparr> = (r, s2)"
    by (cases "execute_search demo_env ''task0'' (demo_request ''none'')
      \<lparr>tasks = tasks s1, world = w0, trace = []\<rparr>")
  have wr: "writes_for ''task0'' (trace s2) = demo_writes"
    using ex
    by (auto simp add: execute_search_def try_body_def prepare_def search_stage_def
        process_results_def bind_exn_def write_task_def invoke_def ask_def ret_def
        demo_env_def demo_request_def s1_def w0_def remove_duplicates_def dict_values_def
        results_dir_simple str_nat_0 demo_writes_def)
  have "step demo_env init_sys
      \<lparr>registry = tasks s1, jobs = (jobs init_sys)(''task0'' \<mapsto> writes_for ''task0'' (trace s2))\<rparr>"
    using sp _ ex by (rule step.submit) (simp add: init_sys_def)
  then show ?thesis
    by (simp add: wr s1_def demo_sys1_def init_sys_def)
qed

lemma demo_first_write: "step demo_env demo_sys1 demo_sys2"
proof -
  have "step demo_env demo_sys1
      \<lparr>registry = (registry demo_sys1)(''task0'' \<mapsto>
          apply_write (SetStatus Running) (demo_task ''task0'' (demo_request ''none''))),
       jobs = (jobs demo_sys1)(''task0'' \<mapsto> tl demo_writes)\<rparr>"
    by (rule step.perform) (simp_all add: demo_sys1_def demo_writes_def)
  then show ?thesis by (simp add: demo_sys1_def demo_sys2_def)
qed

lemma demo_end: "(step demo_env)\<^sup>*\<^sup>* demo_sys1 demo_sys_end"
proof -
  have "(step demo_env)\<^sup>*\<^sup>* demo_sys1
      \<lparr>registry = (registry demo_sys1)(''task0'' \<mapsto>
          fold apply_write demo_writes (demo_task ''task0'' (demo_request ''none''))),
       jobs = (jobs demo_sys1)(''task0'' \<mapsto> [])\<rparr>"
    by (rule run_to_end) (simp_all add: demo_sys1_def)
  then show ?thesis
    by (simp add: demo_sys1_def demo_sys_end_def demo_writes_def demo_task_def)
qed


section \<open>Runs of the worker: proofs\<close>

lemma emitted_eq: "trace s' = trace s @ evs \<Longrightarrow> emitted s s' = evs"
  by (simp add: emitted_def)

lemma quiet_no_raise:
  "list_all (quiet tid) evs \<Longrightarrow> Call c (Raises e) \<in> set evs \<Longrightarrow> is_enrich c"
  by (auto simp: list_all_iff)

lemma raising_unique:
  "raising tid e evs \<Longrightarrow> Call c (Raises e') \<in> set evs \<Longrightarrow> \<not> is_enrich c \<Longrightarrow> e' = e"
  by (induction tid e evs rule: raising.induct) auto

lemma raising_ex: "raising tid e evs \<Longrightarrow> \<exists>c. Call c (Raises e) \<in> set evs \<and> \<not> is_enrich c"
  by (induction tid e evs rule: raising.induct) auto


lemma prepare_post:
  assumes "tasks s tid = Some t" and "prepare env tid req s = (Inr pasta, s1)"
  shows "tasks s1 = (tasks s)(tid \<mapsto> t\<lparr>status := Running,
            progress := Some (''Searching patents for term: '' @ search_term req)\<rparr>) \<and>
         (\<exists>timestamp. pasta = results_dir (search_term req) timestamp) \<and>
         (\<exists>evs. trace s1 = trace s @ Write tid (SetStatus Running) # evs)"
  using assms
  by (auto simp: prepare_def bind_exn_def write_task_def invoke_def ask_def ret_def
      split: prod.splits sum.splits)

lemma after_search:
  assumes "tasks s tid = Some t" and "prepare env tid req s = (Inr pasta, s1)"
    and "search_stage env tid req s1 = (Inr all_patents, s2)"
  shows "\<exists>t2. tasks s2 tid = Some t2 \<and> t2 = t\<lparr>status := Running, progress := progress t2\<rparr> \<and>
           (\<forall>k. k \<noteq> tid \<longrightarrow> tasks s2 k = tasks s k) \<and>
           (\<exists>evs. trace s2 = trace s @ evs) \<and>
           try_body env tid req s = process_results env tid req pasta all_patents s2"
proof -
  from prepare_post [OF assms(1,2)] obtain evs where
    t1: "tasks s1 = (tasks s)(tid \<mapsto> t\<lparr>status := Running,
            progress := Some (''Searching patents for term: '' @ search_term req)\<rparr>)"
    and tr1: "trace s1 = trace s @ Write tid (SetStatus Running) # evs"
    by blast
  have "tasks s1 tid \<noteq> None" by (simp add: t1)
  with stage_ok_search_stage [of tid env req] assms(3)
  have post: "stage_post tid s1 (Inr all_patents, s2)"
    unfolding stage_ok_def by metis
  then obtain t2 where t2: "tasks s2 tid = Some t2"
    and op: "only_progress (the (tasks s1 tid)) t2"
    and fr: "\<forall>k. k \<noteq> tid \<longrightarrow> tasks s2 k = tasks s1 k"
    and tr2: "trace s2 = trace s1 @ emitted s1 s2"
    unfolding stage_post_def by auto
  from op have "t2 = t\<lparr>status := Running, progress := progress t2\<rparr>"
    unfolding only_progress_def t1 by simp
  moreover have "try_body env tid req s = process_results env tid req pasta all_patents s2"
    by (simp add: try_body_def bind_exn_def assms(2,3))
  ultimately show ?thesis
    using t2 fr tr1 tr2 by (auto simp: t1)
qed



lemma save_raisedD: "list_ex (save_raised e) evs \<Longrightarrow> \<exists>c. is_save c \<and> Call c (Raises e) \<in> set evs"
proof (induction evs)
  case Nil
  then show ?case by simp
next
  case (Cons ev evs)
  then show ?case
    by (cases "(e, ev)" rule: save_raised.cases) auto
qed

lemma save_and_complete_cases:
  assumes "tasks s tid = Some t"
    and "save_and_complete env tid req pasta all_patents pl stats s = (r, s')"
  shows "case r of
            Inr u \<Rightarrow> \<exists>g data_busca.
               trace s' = trace s @
                 [Write tid (SetProgress ''Saving results...''),
                  Call (Agrupar pl) Returns,
                  Call (JsonDump (json_file pasta) g) Returns,
                  Call (JsonDump (summary_file pasta)
                          (summary req data_busca all_patents pl stats)) Returns,
                  Write tid (SetStatus Completed),
                  Write tid (SetResult (full_result req pasta data_busca all_patents pl stats))] \<and>
               tasks s' tid = Some (t\<lparr>progress := Some ''Saving results...'',
                 status := Completed,
                 result := Some (full_result req pasta data_busca all_patents pl stats)\<rparr>)
          | Inl e \<Rightarrow> \<exists>evs. trace s' = trace s @ Write tid (SetProgress ''Saving results...'') # evs \<and>
                 list_ex (save_raised e) evs \<and>
                 tasks s' tid = Some (t\<lparr>progress := Some ''Saving results...''\<rparr>)"
  using assms
  apply (auto simp: save_and_complete_def bind_exn_def write_task_def invoke_def ask_def
      split: prod.splits sum.splits)
  subgoal for w1 g w2 w3 data_busca w4
    by (rule exI [of _ data_busca]) simp
  done

lemma process_results_nonempty:
  assumes "remove_duplicates all_patents \<noteq> []" and "tasks s2 tid = Some t2"
  shows "process_results env tid req pasta all_patents s2 =
           bind_exn (enrich_stage env tid req (remove_duplicates all_patents)) (\<lambda>patents_list.
             save_and_complete env tid req pasta all_patents patents_list
               (calc_statistics patents_list))
             (s2\<lparr>tasks := (tasks s2)(tid \<mapsto> t2\<lparr>progress :=
                   Some (''Found '' @ str_nat (length (remove_duplicates all_patents))
                     @ '' unique patents'')\<rparr>),
                 trace := trace s2 @
                   [Write tid (SetProgress (''Found ''
                      @ str_nat (length (remove_duplicates all_patents))
                      @ '' unique patents''))]\<rparr>)"
  using assms by (simp add: process_results_def bind_exn_def write_task_def)

lemma enrich_stage_raises:
  assumes "tasks s tid = Some t" and "get_details req" and "pl \<noteq> []"
    and "enriquecer_patentes_com_detalhes env pl (max_details req) (world s) = (Inl (e, left), w)"
  shows "enrich_stage env tid req pl s =
           (Inr left,
            s\<lparr>tasks := (tasks s)(tid \<mapsto> t\<lparr>progress := Some (''Error retrieving details: '' @ str_exn e)\<rparr>),
              world := w,
              trace := trace s @
                [Write tid (SetProgress ''Retrieving complete details...''),
                 Call (Enriquecer pl (max_details req)) (Raises e),
                 Write tid (SetProgress (''Error retrieving details: '' @ str_exn e))]\<rparr>)"
  using assms
  by (simp add: enrich_stage_def bind_exn_def write_task_def ret_def)

section \<open>The directory of a run: proofs\<close>





section \<open>Searches by country: proofs\<close>

lemma search_calls_append: "search_calls (xs @ ys) = search_calls xs @ search_calls ys"
  by (induction xs rule: search_calls.induct) auto

lemma batches_append: "batches (xs @ ys) = batches xs @ batches ys"
  by (induction xs rule: batches.induct) auto

lemma search_countries_calls:
  assumes "tasks s tid \<noteq> None"
    and "search_countries env tid req cs acc s = (Inr all_patents, s')"
  shows "search_calls (emitted s s') =
           map (\<lambda>pais. Buscar (search_term req) ''all'' pais (limit req)) cs \<and>
         length (batches (emitted s s')) = length cs \<and>
         all_patents = acc @ concat (map (\<lambda>(pais, b). map (\<lambda>p. p\<lparr>pais_filtro := Some pais\<rparr>) b)
                                      (zip cs (batches (emitted s s'))))"
  using assms
proof (induction cs arbitrary: acc s)
  case Nil
  then show ?case by (simp add: emitted_def)
next
  case (Cons pais rest)
  from Cons.prems(1) obtain t where t: "tasks s tid = Some t" by auto
  define s1 where "s1 = s\<lparr>tasks := (tasks s)(tid \<mapsto> t\<lparr>progress := Some (''Searching in '' @ pais @ ''...'')\<rparr>),
      trace := trace s @ [Write tid (SetProgress (''Searching in '' @ pais @ ''...''))]\<rparr>"
  have w: "write_task tid (SetProgress (''Searching in '' @ pais @ ''...'')) s = (Inr (), s1)"
    using t by (simp add: write_task_def s1_def)
  obtain r w' where f: "buscar_patentes env (search_term req) ''all'' pais (limit req) (world s1) = (r, w')"
    by (cases "buscar_patentes env (search_term req) ''all'' pais (limit req) (world s1)")
  show ?case
  proof (cases r)
    case (Inl e)
    have "invoke (Buscar (search_term req) ''all'' pais (limit req)) ReturnsPatents
        (buscar_patentes env (search_term req) ''all'' pais (limit req)) s1 =
        (Inl e, s1\<lparr>world := w', trace := trace s1 @
          [Call (Buscar (search_term req) ''all'' pais (limit req)) (Raises e)]\<rparr>)"
      by (simp add: invoke_def f Inl)
    with Cons.prems(2) have False
      by (simp only: search_countries.simps w prod.case sum.case) simp
    then show ?thesis ..
  next
    case (Inr patents)
    define s2 where "s2 = s1\<lparr>world := w', trace := trace s1 @
      [Call (Buscar (search_term req) ''all'' pais (limit req)) (ReturnsPatents patents)]\<rparr>"
    have i: "invoke (Buscar (search_term req) ''all'' pais (limit req)) ReturnsPatents
        (buscar_patentes env (search_term req) ''all'' pais (limit req)) s1 = (Inr patents, s2)"
      by (simp add: invoke_def f Inr s2_def)
    have rec: "search_countries env tid req rest
        (acc @ map (\<lambda>p. p\<lparr>pais_filtro := Some pais\<rparr>) patents) s2 = (Inr all_patents, s')"
      using Cons.prems(2) by (simp only: search_countries.simps w i prod.case sum.case)
    have ex2: "tasks s2 tid \<noteq> None"
      by (simp add: s2_def s1_def)
    from stage_ok_search_countries [of tid env req rest
        "acc @ map (\<lambda>p. p\<lparr>pais_filtro := Some pais\<rparr>) patents"] ex2 rec
    have "stage_post tid s2 (Inr all_patents, s')"
      unfolding stage_ok_def by metis
    then have tr: "trace s' = trace s2 @ emitted s2 s'"
      by (simp add: stage_post_def)
    have em: "emitted s s' = [Write tid (SetProgress (''Searching in '' @ pais @ ''...'')),
        Call (Buscar (search_term req) ''all'' pais (limit req)) (ReturnsPatents patents)]
        @ emitted s2 s'"
      by (rule emitted_eq) (simp add: tr s2_def s1_def)
    from Cons.IH [OF ex2 rec] show ?thesis
      by (simp add: em)
  qed
qed


lemma search_stage_countries:
  assumes "countries req = Some cs" and "cs \<noteq> []"
  shows "search_stage env tid req = search_countries env tid req cs []"
  using assms by (simp add: search_stage_def)

lemma length_concat_zip:
  "length cs = length bs \<Longrightarrow>
     length (concat (map (\<lambda>(pais, b). map (f pais) b) (zip cs bs))) = sum_list (map length bs)"
  by (induction cs bs rule: list_induct2) auto

lemma sum_lengths_bound:
  "list_all (\<lambda>b. int (length b) \<le> l) bs \<Longrightarrow> int (sum_list (map length bs)) \<le> int (length bs) * l"
  by (induction bs) (auto simp: distrib_right)

lemma pub_id_mk_patent: "pub_id ((mk_patent n)\<lparr>pais_filtro := c\<rparr>) = n" "pub_id (mk_patent n) = n"
  by (simp_all add: pub_id_def mk_patent_def get_str_def)

lemma fresh_patents_ids:
  "map pub_id (map (\<lambda>p. p\<lparr>pais_filtro := c\<rparr>) (fresh_patents w n)) =
     map (\<lambda>i. replicate (Suc i) CHR ''x'') [w..<w + n]"
  by (simp add: fresh_patents_def comp_def pub_id_mk_patent)

lemma fresh_search_countries:
  assumes "tasks s tid \<noteq> None"
  shows "\<exists>all_patents s'. search_countries fresh_env tid req cs acc s = (Inr all_patents, s') \<and>
           tasks s' tid \<noteq> None \<and>
           map pub_id all_patents = map pub_id acc @
             map (\<lambda>i. replicate (Suc i) CHR ''x'') [world s..<world s + length cs * nat (limit req)]"
  using assms
proof (induction cs arbitrary: acc s)
  case Nil
  then show ?case by simp
next
  case (Cons pais rest)
  from Cons.prems obtain t where t: "tasks s tid = Some t" by auto
  define s1 where "s1 = s\<lparr>tasks := (tasks s)(tid \<mapsto> t\<lparr>progress := Some (''Searching in '' @ pais @ ''...'')\<rparr>),
      trace := trace s @ [Write tid (SetProgress (''Searching in '' @ pais @ ''...''))]\<rparr>"
  have w: "write_task tid (SetProgress (''Searching in '' @ pais @ ''...'')) s = (Inr (), s1)"
    using t by (simp add: write_task_def s1_def)
  define s2 where "s2 = s1\<lparr>world := world s + nat (limit req), trace := trace s1 @
      [Call (Buscar (search_term req) ''all'' pais (limit req))
         (ReturnsPatents (fresh_patents (world s) (nat (limit req))))]\<rparr>"
  have i: "invoke (Buscar (search_term req) ''all'' pais (limit req)) ReturnsPatents
        (buscar_patentes fresh_env (search_term req) ''all'' pais (limit req)) s1
      = (Inr (fresh_patents (world s) (nat (limit req))), s2)"
    by (simp add: invoke_def fresh_env_def s2_def s1_def)
  have step: "search_countries fresh_env tid req (pais # rest) acc s =
      search_countries fresh_env tid req rest
        (acc @ map (\<lambda>p. p\<lparr>pais_filtro := Some pais\<rparr>) (fresh_patents (world s) (nat (limit req)))) s2"
    by (simp only: search_countries.simps w i prod.case sum.case)
  have ex2: "tasks s2 tid \<noteq> None" and w2: "world s2 = world s + nat (limit req)"
    by (simp_all add: s2_def s1_def)
  from Cons.IH [OF ex2, of "acc @ map (\<lambda>p. p\<lparr>pais_filtro := Some pais\<rparr>)
      (fresh_patents (world s) (nat (limit req)))"]
  obtain all_patents s' where r: "search_countries fresh_env tid req rest
        (acc @ map (\<lambda>p. p\<lparr>pais_filtro := Some pais\<rparr>) (fresh_patents (world s) (nat (limit req)))) s2
        = (Inr all_patents, s')"
    and ex': "tasks s' tid \<noteq> None"
    and ids: "map pub_id all_patents =
        map pub_id (acc @ map (\<lambda>p. p\<lparr>pais_filtro := Some pais\<rparr>)
          (fresh_patents (world s) (nat (limit req)))) @
        map (\<lambda>i. replicate (Suc i) CHR ''x'')
          [world s2..<world s2 + length rest * nat (limit req)]"
    by blast
  have "world s + length (pais # rest) * nat (limit req) =
      (world s + nat (limit req)) + length rest * nat (limit req)"
    by simp
  moreover have "[world s..<(world s + nat (limit req)) + length rest * nat (limit req)] =
      [world s..<world s + nat (limit req)] @
      [world s + nat (limit req)..<(world s + nat (limit req)) + length rest * nat (limit req)]"
    by (rule upt_add_eq_append) simp
  ultimately have "[world s..<world s + length (pais # rest) * nat (limit req)] =
      [world s..<world s + nat (limit req)] @
      [world s + nat (limit req)..<(world s + nat (limit req)) + length rest * nat (limit req)]"
    by (simp only:)
  then have "map pub_id all_patents = map pub_id acc @
      map (\<lambda>i. replicate (Suc i) CHR ''x'')
        [world s..<world s + length (pais # rest) * nat (limit req)]"
    using ids by (simp only: map_append fresh_patents_ids w2 append_assoc)
  with r ex' show ?case
    unfolding step by blast
qed

lemma fresh_ids_dedup:
  assumes "map pub_id xs = map (\<lambda>i. replicate (Suc i) CHR ''x'') [w..<w + n]"
  shows "remove_duplicates xs = xs"
proof -
  have "distinct (map pub_id xs)"
    unfolding assms by (auto simp: distinct_map inj_on_def)
  moreover have "[] \<notin> set (map pub_id xs)"
    unfolding assms by auto
  ultimately show ?thesis
    unfolding remove_duplicates_keep_first by (intro keep_first_fixed) simp_all
qed


lemma fresh_prepare:
  assumes "tasks s tid = Some t"
  shows "\<exists>pasta s1. prepare fresh_env tid req s = (Inr pasta, s1) \<and> tasks s1 tid \<noteq> None"
  using assms
  by (simp add: prepare_def bind_exn_def write_task_def invoke_def ask_def ret_def fresh_env_def)

lemma fresh_enrich:
  assumes "tasks s tid = Some t"
  shows "\<exists>s'. enrich_stage fresh_env tid req pl s = (Inr pl, s') \<and> tasks s' tid \<noteq> None"
  using assms
  by (simp add: enrich_stage_def bind_exn_def write_task_def invoke_def ret_def fresh_env_def)

lemma fresh_save:
  assumes "tasks s tid = Some t"
  shows "\<exists>s' t'. save_and_complete fresh_env tid req pasta all_patents pl stats s = (Inr (), s') \<and>
           tasks s' tid = Some t' \<and> status t' = Completed \<and>
           result t' = Some (full_result req pasta ''2024-01-01T12:00:00'' all_patents pl stats)"
  using assms
  by (simp add: save_and_complete_def bind_exn_def write_task_def invoke_def ask_def fresh_env_def)

lemma fresh_run:
  assumes "tasks s tid = Some t" and "countries req = Some cs" and "cs \<noteq> []"
    and "1 \<le> limit req"
  shows "\<exists>s' t' res. execute_search fresh_env tid req s = (Inr (), s') \<and>
           tasks s' tid = Some t' \<and> status t' = Completed \<and> result t' = Some res \<and>
           subscript res ''total_patents'' = Inr (VInt (int (length cs) * limit req))"
proof -
  from fresh_prepare [OF assms(1)] obtain pasta s1
    where p: "prepare fresh_env tid req s = (Inr pasta, s1)" and ex1: "tasks s1 tid \<noteq> None"
    by blast
  from fresh_search_countries [OF ex1, of req cs "[]"] obtain all_patents s2
    where sc: "search_countries fresh_env tid req cs [] s1 = (Inr all_patents, s2)"
      and ex2: "tasks s2 tid \<noteq> None"
      and ids: "map pub_id all_patents =
          map (\<lambda>i. replicate (Suc i) CHR ''x'') [world s1..<world s1 + length cs * nat (limit req)]"
    by auto
  have q: "search_stage fresh_env tid req s1 = (Inr all_patents, s2)"
    by (simp add: search_stage_countries [OF assms(2,3)] sc)
  have dd: "remove_duplicates all_patents = all_patents"
    using ids by (rule fresh_ids_dedup)
  have "length (map pub_id all_patents) = length cs * nat (limit req)"
    unfolding ids by simp
  then have len: "length all_patents = length cs * nat (limit req)"
    by simp
  with assms(3,4) have ne: "remove_duplicates all_patents \<noteq> []"
    unfolding dd by (cases cs) auto
  from ex2 obtain t2 where t2: "tasks s2 tid = Some t2" by auto
  define sa where "sa = s2\<lparr>tasks := (tasks s2)(tid \<mapsto> t2\<lparr>progress :=
                   Some (''Found '' @ str_nat (length (remove_duplicates all_patents))
                     @ '' unique patents'')\<rparr>),
                 trace := trace s2 @
                   [Write tid (SetProgress (''Found ''
                      @ str_nat (length (remove_duplicates all_patents))
                      @ '' unique patents''))]\<rparr>"
  have wa: "process_results fresh_env tid req pasta all_patents s2 =
           bind_exn (enrich_stage fresh_env tid req (remove_duplicates all_patents))
             (\<lambda>patents_list.
                save_and_complete fresh_env tid req pasta all_patents patents_list
                  (calc_statistics patents_list)) sa"
    unfolding sa_def by (rule process_results_nonempty [OF ne t2])
  have tsa: "tasks sa tid = Some (t2\<lparr>progress :=
                   Some (''Found '' @ str_nat (length (remove_duplicates all_patents))
                     @ '' unique patents'')\<rparr>)"
    by (simp add: sa_def)
  from fresh_enrich [OF tsa, of req "remove_duplicates all_patents"] obtain sb
    where en: "enrich_stage fresh_env tid req (remove_duplicates all_patents) sa
        = (Inr (remove_duplicates all_patents), sb)"
      and exb: "tasks sb tid \<noteq> None"
    by blast
  from exb obtain tb where tb: "tasks sb tid = Some tb" by auto
  from fresh_save [OF tb, of req pasta all_patents "remove_duplicates all_patents"
      "calc_statistics (remove_duplicates all_patents)"]
  obtain s' t' where sv: "save_and_complete fresh_env tid req pasta all_patents
        (remove_duplicates all_patents) (calc_statistics (remove_duplicates all_patents)) sb
        = (Inr (), s')"
    and t': "tasks s' tid = Some t'" and st: "status t' = Completed"
    and res: "result t' = Some (full_result req pasta ''2024-01-01T12:00:00'' all_patents
        (remove_duplicates all_patents) (calc_statistics (remove_duplicates all_patents)))"
    by blast
  have pr: "process_results fresh_env tid req pasta all_patents s2 = (Inr (), s')"
    by (simp add: wa bind_exn_def en sv)
  have ex: "execute_search fresh_env tid req s = (Inr (), s')"
    by (simp add: execute_search_def try_body_def bind_exn_def p q pr)
  have "int (length cs * nat (limit req)) = int (length cs) * limit req"
    using assms(4) by simp
  then have "subscript (full_result req pasta ''2024-01-01T12:00:00'' all_patents
        (remove_duplicates all_patents) (calc_statistics (remove_duplicates all_patents)))
        ''total_patents'' = Inr (VInt (int (length cs) * limit req))"
    by (simp add: subscript_def full_result_def dd len)
  with ex t' st res show ?thesis by blast
qed


section \<open>The worker and its assignments: proofs\<close>

lemma replays_ret: "replays tid (ret v)"
  by (auto simp: replays_def ret_def emitted_def)

lemma replays_ask: "replays tid (ask f)"
  by (auto simp: replays_def ask_def emitted_def split: prod.splits)

lemma replays_write: "replays tid (write_task tid wr)"
  by (auto simp: replays_def write_task_def emitted_def)

lemma replays_invoke: "replays tid (invoke c shown f)"
  by (auto simp: replays_def invoke_def emitted_def split: prod.splits sum.splits)

lemma replays_seq:
  assumes "tasks s tid = Some t" and "replays tid m" and "m s = (r, s1)"
    and "replays tid k" and "k s1 = (r2, s2)"
  shows "trace s2 = trace s @ emitted s s2 \<and>
         tasks s2 = (tasks s)(tid \<mapsto> fold apply_write (writes_for tid (emitted s s2)) t)"
proof -
  from assms(1-3) have t1: "trace s1 = trace s @ emitted s s1"
    and r1: "tasks s1 = (tasks s)(tid \<mapsto> fold apply_write (writes_for tid (emitted s s1)) t)"
    unfolding replays_def by fastforce+
  from r1 have ts1: "tasks s1 tid = Some (fold apply_write (writes_for tid (emitted s s1)) t)"
    by simp
  from assms(4,5) ts1 have t2: "trace s2 = trace s1 @ emitted s1 s2"
    and r2: "tasks s2 = (tasks s1)(tid \<mapsto> fold apply_write (writes_for tid (emitted s1 s2))
        (fold apply_write (writes_for tid (emitted s s1)) t))"
    unfolding replays_def by fastforce+
  have em: "emitted s s2 = emitted s s1 @ emitted s1 s2"
    by (rule emitted_eq) (simp add: t1 t2)
  show ?thesis
    by (simp add: em t1 t2 r1 r2 writes_for_append)
qed

lemma replays_bind:
  assumes "replays tid m" and "\<And>v. replays tid (f v)"
  shows "replays tid (bind_exn m f)"
  unfolding replays_def
proof (intro allI impI)
  fix s :: "'a state" and t
  assume t: "tasks s tid = Some t"
  obtain r s1 where m: "m s = (r, s1)" by (cases "m s")
  show "case bind_exn m f s of (r, s') \<Rightarrow>
           trace s' = trace s @ emitted s s' \<and>
           tasks s' = (tasks s)(tid \<mapsto> fold apply_write (writes_for tid (emitted s s')) t)"
  proof (cases r)
    case (Inl e)
    from assms(1) t m show ?thesis
      unfolding replays_def by (fastforce simp: bind_exn_def Inl)
  next
    case (Inr v)
    obtain r2 s2 where f: "f v s1 = (r2, s2)" by (cases "f v s1")
    from replays_seq [OF t assms(1) m assms(2) f] show ?thesis
      by (simp add: bind_exn_def m Inr f)
  qed
qed

lemma replays_search_countries: "replays tid (search_countries env tid req cs acc)"
proof (induction cs arbitrary: acc)
  case Nil
  show ?case by (simp only: search_countries_Nil replays_ret)
next
  case (Cons pais rest)
  show ?case
    unfolding search_countries_Cons
    by (intro replays_bind replays_write replays_invoke Cons.IH)
qed

lemma replays_search_stage: "replays tid (search_stage env tid req)"
  unfolding search_stage_def
  by (auto intro!: replays_bind replays_write replays_invoke replays_search_countries)

lemma replays_catch:
  assumes "replays tid m" and "\<And>e. replays tid (h e)"
  shows "replays tid (\<lambda>s. case m s of (Inr v, s') \<Rightarrow> (Inr (g v), s') | (Inl e, s') \<Rightarrow> h e s')"
  unfolding replays_def
proof (intro allI impI)
  fix s :: "'a state" and t
  assume t: "tasks s tid = Some t"
  obtain r s1 where m: "m s = (r, s1)" by (cases "m s")
  show "case (case m s of (Inr v, s') \<Rightarrow> (Inr (g v), s') | (Inl e, s') \<Rightarrow> h e s') of (r, s') \<Rightarrow>
           trace s' = trace s @ emitted s s' \<and>
           tasks s' = (tasks s)(tid \<mapsto> fold apply_write (writes_for tid (emitted s s')) t)"
  proof (cases r)
    case (Inr v)
    from assms(1) t m show ?thesis
      unfolding replays_def by (fastforce simp: Inr)
  next
    case (Inl e)
    obtain r2 s2 where h: "h e s1 = (r2, s2)" by (cases "h e s1")
    from replays_seq [OF t assms(1) m assms(2) h] show ?thesis
      by (simp add: m Inl h)
  qed
qed

lemma replays_enrich_call:
  "replays tid (\<lambda>s. case f (world s) of
            (Inr enriched, w') \<Rightarrow>
              (Inr enriched,
               s\<lparr>world := w',
                 trace := trace s @ [Call (Enriquecer ps md) (ReturnsPatents enriched)]\<rparr>)
          | (Inl (e, left), w') \<Rightarrow>
              bind_exn (write_task tid (SetProgress (msg e))) (\<lambda>_. ret left)
                (s\<lparr>world := w', trace := trace s @ [Call (Enriquecer ps md) (Raises e)]\<rparr>))"
  by (auto simp: replays_def emitted_def bind_exn_def write_task_def ret_def
      split: prod.splits sum.splits)

lemma replays_enrich_stage: "replays tid (enrich_stage env tid req ps)"
  unfolding enrich_stage_def
  by (auto intro!: replays_bind replays_write replays_ret replays_enrich_call)

lemma replays_try_body: "replays tid (try_body env tid req)"
  unfolding try_body_def prepare_def process_results_def save_and_complete_def
  by (auto intro!: replays_bind replays_write replays_ret replays_invoke replays_ask
      replays_search_stage replays_enrich_stage)

lemma replays_execute_search: "replays tid (execute_search env tid req)"
proof -
  have "execute_search env tid req =
      (\<lambda>s. case try_body env tid req s of
         (Inr v, s') \<Rightarrow> (Inr (), s')
       | (Inl e, s') \<Rightarrow> bind_exn (write_task tid (SetStatus Failed))
           (\<lambda>_. write_task tid (SetError (str_exn e))) s')"
    by (rule ext) (simp add: execute_search_def)
  then show ?thesis
    by (simp only:) (intro replays_catch replays_try_body replays_bind replays_write)
qed

text \<open>
  A run of the worker changes the registry by making its assignments to its own task, one
  after the other, and by nothing else.
\<close>

lemma worker_replay:
  assumes "tasks s tid = Some t" and "execute_search env tid req s = (r, s')"
  shows "tasks s' = (tasks s)(tid \<mapsto> fold apply_write (writes_for tid (emitted s s')) t)"
  using replays_execute_search [of tid env req] assms
  unfolding replays_def by fastforce


lemma run_prefix:
  assumes "jobs \<sigma> tid = Some (ws @ ws')" and "registry \<sigma> tid = Some t"
  shows "(step env)\<^sup>*\<^sup>* \<sigma>
           \<lparr>registry = (registry \<sigma>)(tid \<mapsto> fold apply_write ws t), jobs = (jobs \<sigma>)(tid \<mapsto> ws')\<rparr>"
  using assms
proof (induction ws arbitrary: \<sigma> t)
  case Nil
  then have "(registry \<sigma>)(tid \<mapsto> t) = registry \<sigma>" and "(jobs \<sigma>)(tid \<mapsto> ws') = jobs \<sigma>"
    by (auto simp: fun_eq_iff)
  then show ?case by (cases \<sigma>) simp
next
  case (Cons wr ws)
  let ?\<sigma>1 = "\<lparr>registry = (registry \<sigma>)(tid \<mapsto> apply_write wr t), jobs = (jobs \<sigma>)(tid \<mapsto> ws @ ws')\<rparr>"
  have "step env \<sigma> ?\<sigma>1"
    using Cons.prems by (intro step.perform) simp_all
  moreover have "(step env)\<^sup>*\<^sup>* ?\<sigma>1
      \<lparr>registry = (registry ?\<sigma>1)(tid \<mapsto> fold apply_write ws (apply_write wr t)),
       jobs = (jobs ?\<sigma>1)(tid \<mapsto> ws')\<rparr>"
    by (rule Cons.IH) (simp_all only: sys.select_convs fun_upd_same)
  ultimately have "(step env)\<^sup>*\<^sup>* \<sigma>
      \<lparr>registry = (registry ?\<sigma>1)(tid \<mapsto> fold apply_write ws (apply_write wr t)),
       jobs = (jobs ?\<sigma>1)(tid \<mapsto> ws')\<rparr>"
    by (rule converse_rtranclp_into_rtranclp)
  then show ?case
    by (simp only: sys.select_convs fun_upd_upd fold_simps o_apply)
qed

text \<open>
  The assignments of a run, made one after the other as steps of the system, change the
  registry as the run of \<open>execute_search\<close> in one piece does.
\<close>

lemma run_in_steps:
  assumes "tasks s tid = Some t" and "trace s = []"
    and "execute_search env tid req s = (r, s')"
  shows "(step env)\<^sup>*\<^sup>* \<lparr>registry = tasks s, jobs = J(tid \<mapsto> writes_for tid (trace s'))\<rparr>
           \<lparr>registry = tasks s', jobs = J(tid \<mapsto> [])\<rparr>"
proof -
  have em: "emitted s s' = trace s'"
    by (simp add: emitted_def assms(2))
  let ?\<sigma> = "\<lparr>registry = tasks s, jobs = J(tid \<mapsto> writes_for tid (trace s'))\<rparr>"
  have "(step env)\<^sup>*\<^sup>* ?\<sigma>
      \<lparr>registry = (registry ?\<sigma>)(tid \<mapsto> fold apply_write (writes_for tid (trace s')) t),
       jobs = (jobs ?\<sigma>)(tid \<mapsto> [])\<rparr>"
    by (rule run_prefix) (simp_all add: assms(1))
  then show ?thesis
    by (simp only: sys.select_convs fun_upd_upd worker_replay [OF assms(1,3), unfolded em, symmetric])
qed


lemma handler_records:
  assumes "tasks s tid = Some t" and "try_body env tid req s = (Inl e, s1)"
  shows "\<exists>s' t'. execute_search env tid req s = (Inr (), s') \<and> tasks s' tid = Some t' \<and>
           status t' = Failed \<and> error t' = Some (str_exn e)"
proof -
  from replays_try_body [of tid env req] assms
  have "tasks s1 = (tasks s)(tid \<mapsto> fold apply_write (writes_for tid (emitted s s1)) t)"
    unfolding replays_def by fastforce
  then obtain t1 where "tasks s1 tid = Some t1" by simp
  then show ?thesis
    by (simp add: execute_search_def assms(2) bind_exn_def write_task_def)
qed


section \<open>The claims\<close>

text \<open>
  C3. For every input sequence, deduplication returns exactly the records that are the first
  to bear a non-empty publication identifier, in input order (\<open>first_records\<close>): the output
  is a subsequence of the input, no longer than it, its identifiers are pairwise distinct
  and non-empty, every non-empty identifier of the input occurs in it, and deduplicating
  the output again changes nothing.
\<close>

theorem remove_duplicates_contract:
  "remove_duplicates xs = first_records xs \<and>
   subseq (remove_duplicates xs) xs \<and>
   length (remove_duplicates xs) \<le> length xs \<and>
   distinct (map pub_id (remove_duplicates xs)) \<and>
   set (map pub_id (remove_duplicates xs)) = set (map pub_id xs) - {[]} \<and>
   remove_duplicates (remove_duplicates xs) = remove_duplicates xs"
proof -
  have "length (keep_first {} xs) \<le> length xs"
    by (rule keep_first_length)
  then show ?thesis
    using keep_first_set [of "{}" xs]
    by (simp add: remove_duplicates_first_records [symmetric] remove_duplicates_keep_first
        keep_first_subseq keep_first_distinct keep_first_idem)
qed

theorem remove_duplicates_contract_witness:
  "remove_duplicates [mk_patent ''US1'', mk_patent ''US1'', mk_patent [], mk_patent ''EP2'']
     = [mk_patent ''US1'', mk_patent ''EP2''] \<and>
   first_records [mk_patent ''US1'', mk_patent ''US1'', mk_patent [], mk_patent ''EP2'']
     = [mk_patent ''US1'', mk_patent ''EP2'']"
proof -
  have "remove_duplicates [mk_patent ''US1'', mk_patent ''US1'', mk_patent [], mk_patent ''EP2'']
     = [mk_patent ''US1'', mk_patent ''EP2'']"
    by (simp add: remove_duplicates_def mk_patent_def get_str_def dict_contains_def
        dict_values_def Let_def)
  then show ?thesis
    using remove_duplicates_contract
      [of "[mk_patent ''US1'', mk_patent ''US1'', mk_patent [], mk_patent ''EP2'']"]
    by simp
qed

text \<open>
  C7. For every record list, the country table has one entry per two-character prefix of
  an identifier of at least two characters, its value is the number of records whose
  identifier has at least two characters and starts with that prefix, and the values sum
  to the number of records whose identifier has at least two characters.
\<close>

theorem country_table_counts:
  "distinct (dict_keys (por_pais (calc_statistics ps))) \<and>
   (\<forall>c. map_of (por_pais (calc_statistics ps)) c =
      (if country_count ps c = 0 then None else Some (int (country_count ps c)))) \<and>
   (\<forall>c. dict_contains (por_pais (calc_statistics ps)) c =
      (\<exists>p. p \<in> set ps \<and> 2 \<le> length (pub_id p) \<and> take 2 (pub_id p) = c)) \<and>
   sum_list (dict_values (por_pais (calc_statistics ps))) =
     int (length (filter (\<lambda>p. 2 \<le> length (pub_id p)) ps))"
proof -
  have keys: "dict_contains (count_por_pais [] ps) c =
      (\<exists>p. p \<in> set ps \<and> 2 \<le> length (pub_id p) \<and> take 2 (pub_id p) = c)" for c
  proof -
    have "dict_contains (count_por_pais [] ps) c = (map_of (count_por_pais [] ps) c \<noteq> None)"
      by (simp add: dict_contains_def map_of_eq_None_iff)
    also have "\<dots> = (country_count ps c \<noteq> 0)"
      by (simp add: count_por_pais_lookup)
    also have "\<dots> = (\<exists>p. p \<in> set ps \<and> 2 \<le> length (pub_id p) \<and> take 2 (pub_id p) = c)"
      by (auto simp: country_count_def filter_empty_conv)
    finally show ?thesis .
  qed
  show ?thesis
    by (simp add: calc_statistics_def dict_keys_def dict_values_def count_por_pais_distinct
        count_por_pais_sum count_por_pais_lookup dict_get_def keys)
qed

theorem country_table_counts_witness:
  "por_pais (calc_statistics [mk_patent ''US1'', mk_patent ''U'', mk_patent ''EP2'', mk_patent ''US7''])
     = [(''US'', 2), (''EP'', 1)] \<and>
   sum_list (dict_values
     (por_pais (calc_statistics [mk_patent ''US1'', mk_patent ''U'', mk_patent ''EP2'', mk_patent ''US7''])))
     = int (length (filter (\<lambda>p. 2 \<le> length (pub_id p))
         [mk_patent ''US1'', mk_patent ''U'', mk_patent ''EP2'', mk_patent ''US7'']))"
proof -
  have "por_pais (calc_statistics [mk_patent ''US1'', mk_patent ''U'', mk_patent ''EP2'', mk_patent ''US7''])
     = [(''US'', 2), (''EP'', 1)]"
    by (simp add: calc_statistics_def mk_patent_def get_str_def increment_def dict_get_def Let_def)
  then show ?thesis
    using country_table_counts
      [of "[mk_patent ''US1'', mk_patent ''U'', mk_patent ''EP2'', mk_patent ''US7'']"]
    by simp
qed

text \<open>
  C1. In every reachable state of the system, a step creates a task in status \<open>queued\<close>
  or moves the status of an existing task along queued \<open>\<rightarrow>\<close> running \<open>\<rightarrow>\<close> completed or failed
  (or leaves it); over any number of steps a status is only replaced by a later one, and a
  status \<open>completed\<close> or \<open>failed\<close> never changes again. The identifier drawn by \<open>uuid4\<close> is
  taken to be new, as the submit step says.
\<close>

theorem task_status_forward:
  assumes "(step env)\<^sup>*\<^sup>* init_sys \<sigma>"
  shows "(\<forall>\<sigma>' tid. step env \<sigma> \<sigma>' \<longrightarrow>
            (case registry \<sigma> tid of
               None \<Rightarrow> (\<forall>t'. registry \<sigma>' tid = Some t' \<longrightarrow> status t' = Queued)
             | Some t \<Rightarrow> (\<exists>t'. registry \<sigma>' tid = Some t' \<and> forward (status t) (status t')))) \<and>
         (\<forall>\<sigma>' tid t. (step env)\<^sup>*\<^sup>* \<sigma> \<sigma>' \<and> registry \<sigma> tid = Some t \<longrightarrow>
            (\<exists>t'. registry \<sigma>' tid = Some t' \<and> later (status t) (status t') \<and>
               (status t = Completed \<or> status t = Failed \<longrightarrow> status t' = status t)))"
proof -
  have inv: "sys_inv \<sigma>" using assms by (rule sys_inv_reachable)
  have one: "case registry \<sigma> tid of
               None \<Rightarrow> (\<forall>t'. registry \<sigma>' tid = Some t' \<longrightarrow> status t' = Queued)
             | Some t \<Rightarrow> (\<exists>t'. registry \<sigma>' tid = Some t' \<and> forward (status t) (status t'))"
    if "step env \<sigma> \<sigma>'" for \<sigma>' tid
    using inv that by (rule step_forward)
  have many: "\<exists>t'. registry \<sigma>' tid = Some t' \<and> later (status t) (status t') \<and>
               (status t = Completed \<or> status t = Failed \<longrightarrow> status t' = status t)"
    if "(step env)\<^sup>*\<^sup>* \<sigma> \<sigma>'" and "registry \<sigma> tid = Some t" for \<sigma>' tid t
    using steps_later [OF that(1) inv that(2)] by (auto simp: later_def)
  from one many show ?thesis by blast
qed

theorem task_status_forward_witness:
  "(step demo_env)\<^sup>*\<^sup>* init_sys demo_sys1 \<and> step demo_env demo_sys1 demo_sys2 \<and>
   (step demo_env)\<^sup>*\<^sup>* demo_sys1 demo_sys_end \<and>
   status (the (registry demo_sys1 ''task0'')) = Queued \<and>
   status (the (registry demo_sys2 ''task0'')) = Running \<and>
   status (the (registry demo_sys_end ''task0'')) = Completed \<and>
   forward (status (the (registry demo_sys1 ''task0''))) (status (the (registry demo_sys2 ''task0''))) \<and>
   later (status (the (registry demo_sys1 ''task0''))) (status (the (registry demo_sys_end ''task0'')))"
proof -
  have r: "(step demo_env)\<^sup>*\<^sup>* init_sys demo_sys1"
    using demo_submit by (rule r_into_rtranclp)
  have t: "registry demo_sys1 ''task0'' = Some (demo_task ''task0'' (demo_request ''none''))"
    by (simp add: demo_sys1_def)
  from task_status_forward [OF r] demo_first_write
  have "case registry demo_sys1 ''task0'' of
               None \<Rightarrow> (\<forall>t'. registry demo_sys2 ''task0'' = Some t' \<longrightarrow> status t' = Queued)
             | Some t \<Rightarrow> (\<exists>t'. registry demo_sys2 ''task0'' = Some t' \<and> forward (status t) (status t'))"
    by blast
  then have f: "forward (status (the (registry demo_sys1 ''task0''))) (status (the (registry demo_sys2 ''task0'')))"
    by (auto simp: t)
  from task_status_forward [OF r] demo_end t
  have "\<exists>t'. registry demo_sys_end ''task0'' = Some t' \<and>
      later (status (demo_task ''task0'' (demo_request ''none''))) (status t')"
    by blast
  then have l: "later (status (the (registry demo_sys1 ''task0''))) (status (the (registry demo_sys_end ''task0'')))"
    by (auto simp: t)
  show ?thesis
    using r demo_first_write demo_end f l
    by (simp add: demo_sys1_def demo_sys2_def demo_sys_end_def demo_task_def)
qed



text \<open>
  C4. A run of the worker for a task of the registry returns without an exception, and
  leaves the task in status \<open>completed\<close> or \<open>failed\<close>, never \<open>running\<close>. Whatever
  exception ends the body of the \<open>try\<close>, the status is \<open>failed\<close> and the error is the
  message of that exception. Whenever a collaborator other than the enrichment raised
  during the run (the scraper, the directory, a search, the grouping, a write of an
  artifact), the task is \<open>failed\<close> with the message of that exception; and a task fails
  for no other reason. On the typed records of this model the statistics cannot raise;
  \<open>except Exception\<close> does not catch a \<open>BaseException\<close>, which is outside the model.
\<close>

theorem worker_catches_exceptions:
  assumes "tasks s tid = Some t"
  shows "\<exists>s' t'. execute_search env tid req s = (Inr (), s') \<and> tasks s' tid = Some t' \<and>
           (status t' = Completed \<or> status t' = Failed) \<and>
           (\<forall>c e. Call c (Raises e) \<in> set (emitted s s') \<and> \<not> is_enrich c \<longrightarrow>
                  status t' = Failed \<and> error t' = Some (str_exn e)) \<and>
           (status t' = Failed \<longrightarrow>
              (\<exists>c e. Call c (Raises e) \<in> set (emitted s s') \<and> \<not> is_enrich c \<and>
                     error t' = Some (str_exn e))) \<and>
           (\<forall>e s1. try_body env tid req s = (Inl e, s1) \<longrightarrow>
              status t' = Failed \<and> error t' = Some (str_exn e))"
proof -
  from execute_search_shape [OF assms, of env req]
  obtain s' evs t' where ex: "execute_search env tid req s = (Inr (), s')"
    and tr: "trace s' = trace s @ Write tid (SetStatus Running) # evs"
    and t': "tasks s' tid = Some t'"
    and sh: "completes tid (result_shape req) evs (t\<lparr>status := Running\<rparr>) t' \<or>
             fails tid evs (t\<lparr>status := Running\<rparr>) t'"
    by blast
  have em: "emitted s s' = Write tid (SetStatus Running) # evs"
    using tr by (rule emitted_eq)
  from sh have "(status t' = Completed \<or> status t' = Failed) \<and>
           (\<forall>c e. Call c (Raises e) \<in> set evs \<and> \<not> is_enrich c \<longrightarrow>
                  status t' = Failed \<and> error t' = Some (str_exn e)) \<and>
           (status t' = Failed \<longrightarrow>
              (\<exists>c e. Call c (Raises e) \<in> set evs \<and> \<not> is_enrich c \<and>
                     error t' = Some (str_exn e)))"
  proof
    assume "completes tid (result_shape req) evs (t\<lparr>status := Running\<rparr>) t'"
    then obtain evs0 res where evs: "evs = evs0 @ [Write tid (SetStatus Completed), Write tid (SetResult res)]"
      and q: "list_all (quiet tid) evs0"
      and t'eq: "t' = t\<lparr>status := Running, status := Completed, progress := progress t', result := Some res\<rparr>"
      unfolding completes_def by auto
    have st: "status t' = Completed"
      by (subst t'eq) simp
    have "is_enrich c" if "Call c (Raises e) \<in> set evs" for c e
      using that quiet_no_raise [OF q, of c e] by (auto simp: evs)
    with st show ?thesis by auto
  next
    assume "fails tid evs (t\<lparr>status := Running\<rparr>) t'"
    then obtain evs1 e where evs: "evs = evs1 @ [Write tid (SetStatus Failed), Write tid (SetError (str_exn e))]"
      and ra: "raising tid e evs1"
      and t'eq: "t' = t\<lparr>status := Running, status := Failed, progress := progress t', error := Some (str_exn e)\<rparr>"
      unfolding fails_def by auto
    have st: "status t' = Failed" and er: "error t' = Some (str_exn e)"
      by (subst t'eq, simp)+
    have "e' = e" if "Call c (Raises e') \<in> set evs" "\<not> is_enrich c" for c e'
      using that raising_unique [OF ra, of c e'] by (auto simp: evs)
    moreover from raising_ex [OF ra] have "\<exists>c. Call c (Raises e) \<in> set evs \<and> \<not> is_enrich c"
      by (auto simp: evs)
    ultimately show ?thesis using st er by auto
  qed
  moreover have "status t' = Failed \<and> error t' = Some (str_exn e)"
    if "try_body env tid req s = (Inl e, s1)" for e s1
    using handler_records [OF assms that] ex t' by auto
  ultimately show ?thesis
    using ex t' by (auto simp: em)
qed

theorem worker_catches_exceptions_witness:
  "\<exists>s' t'. execute_search demo_env ''t1'' (demo_request ''boom'')
              (demo_state ''t1'' (demo_request ''boom'')) = (Inr (), s') \<and>
      tasks s' ''t1'' = Some t' \<and> status t' = Failed \<and> error t' = Some ''connection refused'' \<and>
      Call (BuscarSimples ''boom'' 1) (Raises (PyException ''connection refused''))
        \<in> set (trace s')"
proof -
  have t: "tasks (demo_state ''t1'' (demo_request ''boom'')) ''t1''
      = Some (demo_task ''t1'' (demo_request ''boom''))"
    by (simp add: demo_state_def)
  from worker_catches_exceptions [OF t, of demo_env "demo_request ''boom''"]
  obtain s' t' where ex: "execute_search demo_env ''t1'' (demo_request ''boom'')
              (demo_state ''t1'' (demo_request ''boom'')) = (Inr (), s')"
    and t': "tasks s' ''t1'' = Some t'"
    and all: "\<forall>c e. Call c (Raises e) \<in> set (emitted (demo_state ''t1'' (demo_request ''boom'')) s')
                 \<and> \<not> is_enrich c \<longrightarrow> status t' = Failed \<and> error t' = Some (str_exn e)"
    by blast
  have tr: "Call (BuscarSimples ''boom'' 1) (Raises (PyException ''connection refused''))
        \<in> set (trace s')"
    using ex
    by (auto simp add: execute_search_def try_body_def prepare_def search_stage_def
        bind_exn_def write_task_def invoke_def ask_def ret_def
        demo_env_def demo_request_def demo_state_def results_dir_simple)
  then have "Call (BuscarSimples ''boom'' 1) (Raises (PyException ''connection refused''))
        \<in> set (emitted (demo_state ''t1'' (demo_request ''boom'')) s')"
    by (simp add: emitted_def demo_state_def)
  with all have "status t' = Failed \<and> error t' = Some (str_exn (PyException ''connection refused''))"
    by (metis is_enrich.simps(5))
  with ex t' tr show ?thesis by auto
qed


text \<open>
  C5. In a run whose search returns records of which none survives deduplication, the
  worker returns with the task in status \<open>completed\<close> and the result
  \<open>{"message": "No patents found", "total_found": 0, "patents": []}\<close>. After the search it
  only assigns the progress note, the status and the result: it calls no collaborator
  (no enrichment, grouping or write of an artifact) and leaves the world as the search
  left it. The directory of the run was created before the search.
\<close>

theorem empty_result_completes:
  assumes "tasks s tid = Some t"
    and "prepare env tid req s = (Inr pasta, s1)"
    and "search_stage env tid req s1 = (Inr all_patents, s2)"
    and "remove_duplicates all_patents = []"
  shows "\<exists>s'. execute_search env tid req s = (Inr (), s') \<and>
           tasks s' = (tasks s2)(tid \<mapsto> t\<lparr>status := Completed,
              progress := Some ''Found 0 unique patents'', result := Some empty_result\<rparr>) \<and>
           trace s' = trace s2 @
             [Write tid (SetProgress ''Found 0 unique patents''),
              Write tid (SetStatus Completed), Write tid (SetResult empty_result)] \<and>
           world s' = world s2 \<and>
           map_of empty_result ''patents'' = Some (VList [])"
proof -
  from after_search [OF assms(1-3)] obtain t2 where t2: "tasks s2 tid = Some t2"
    and t2eq: "t2 = t\<lparr>status := Running, progress := progress t2\<rparr>"
    and tb: "try_body env tid req s = process_results env tid req pasta all_patents s2"
    by blast
  define s' where "s' = s2\<lparr>tasks := (tasks s2)(tid \<mapsto> t2\<lparr>progress := Some ''Found 0 unique patents'',
        status := Completed, result := Some empty_result\<rparr>),
      trace := trace s2 @ [Write tid (SetProgress ''Found 0 unique patents''),
              Write tid (SetStatus Completed), Write tid (SetResult empty_result)]\<rparr>"
  have pr: "process_results env tid req pasta all_patents s2 = (Inr (), s')"
    using t2 by (simp add: process_results_def assms(4) bind_exn_def write_task_def str_nat_0 s'_def)
  have "t2\<lparr>progress := Some ''Found 0 unique patents'', status := Completed,
        result := Some empty_result\<rparr> = t\<lparr>status := Completed,
              progress := Some ''Found 0 unique patents'', result := Some empty_result\<rparr>"
    by (subst t2eq) simp
  then show ?thesis
    by (simp add: execute_search_def tb pr s'_def empty_result_def)
qed

theorem empty_result_completes_witness:
  "\<exists>s1 s2 s'. prepare demo_env ''t1'' (demo_request ''none'') (demo_state ''t1'' (demo_request ''none''))
       = (Inr ''resultados/patentscope_none_20240101_120000'', s1) \<and>
     search_stage demo_env ''t1'' (demo_request ''none'') s1 = (Inr [], s2) \<and>
     remove_duplicates [] = [] \<and>
     execute_search demo_env ''t1'' (demo_request ''none'') (demo_state ''t1'' (demo_request ''none''))
       = (Inr (), s') \<and>
     tasks s' ''t1'' = Some ((demo_task ''t1'' (demo_request ''none''))\<lparr>status := Completed,
              progress := Some ''Found 0 unique patents'', result := Some empty_result\<rparr>)"
proof -
  have t: "tasks (demo_state ''t1'' (demo_request ''none'')) ''t1''
      = Some (demo_task ''t1'' (demo_request ''none''))"
    by (simp add: demo_state_def)
  obtain s1 where p: "prepare demo_env ''t1'' (demo_request ''none'') (demo_state ''t1'' (demo_request ''none''))
       = (Inr ''resultados/patentscope_none_20240101_120000'', s1)"
    by (simp add: prepare_def bind_exn_def write_task_def invoke_def ask_def ret_def
        demo_env_def demo_request_def demo_state_def results_dir_simple)
  obtain s2 where q: "search_stage demo_env ''t1'' (demo_request ''none'') s1 = (Inr [], s2)"
    using prepare_post [OF t p]
    by (simp add: search_stage_def bind_exn_def write_task_def invoke_def
        demo_env_def demo_request_def)
  have d: "remove_duplicates [] = []"
    by (simp add: remove_duplicates_def dict_values_def)
  from empty_result_completes [OF t p q d] show ?thesis
    using p q d by auto
qed








text \<open>
  Terms that differ only in empty or \<open>.\<close> path components name one directory as well.
\<close>

lemma separator_collision:
  "results_dir ''a//b'' ''20240101_120000'' = ''resultados/patentscope_a/b_20240101_120000'' \<and>
   results_dir ''a/./b'' ''20240101_120000'' = ''resultados/patentscope_a/b_20240101_120000'' \<and>
   results_dir ''a/b'' ''20240101_120000'' = ''resultados/patentscope_a/b_20240101_120000''"
  by (simp add: results_dir_def run_name_def path_parts_def)



text \<open>
  C9. With country filters \<open>cs\<close> (a non-empty list), a search stage that returns has
  called \<open>buscar_patentes\<close> once per country, in order, each time with the full limit of
  the request, and its result is the concatenation of the batches, each tagged with its
  country; so the number of records before deduplication is the sum of the batch sizes, at
  most \<open>length cs\<close> times the limit when every batch respects the limit. The bound is
  reached: with a collaborator that returns exactly \<open>limit\<close> new records at each call,
  every run completes with \<open>total_patents = length cs * limit\<close>, which exceeds the limit
  as soon as there are two countries.
\<close>

theorem search_once_per_country:
  assumes "countries req = Some cs" and "cs \<noteq> []"
    and "tasks s1 tid \<noteq> None"
    and "search_stage env tid req s1 = (Inr all_patents, s2)"
  shows "search_calls (emitted s1 s2) =
           map (\<lambda>pais. Buscar (search_term req) ''all'' pais (limit req)) cs \<and>
         length (batches (emitted s1 s2)) = length cs \<and>
         all_patents = concat (map (\<lambda>(pais, b). map (\<lambda>p. p\<lparr>pais_filtro := Some pais\<rparr>) b)
                                 (zip cs (batches (emitted s1 s2)))) \<and>
         length all_patents = sum_list (map length (batches (emitted s1 s2))) \<and>
         (list_all (\<lambda>b. int (length b) \<le> limit req) (batches (emitted s1 s2)) \<longrightarrow>
            int (length all_patents) \<le> int (length cs) * limit req) \<and>
         (1 \<le> limit req \<longrightarrow>
            (\<forall>t c pais w. \<exists>b w'. buscar_patentes fresh_env t c pais (limit req) w = (Inr b, w') \<and>
                int (length b) = limit req) \<and>
            (\<forall>sx t. tasks sx tid = Some t \<longrightarrow>
               (\<exists>s' t' res. execute_search fresh_env tid req sx = (Inr (), s') \<and>
                  tasks s' tid = Some t' \<and> status t' = Completed \<and> result t' = Some res \<and>
                  subscript res ''total_patents'' = Inr (VInt (int (length cs) * limit req)))))"
proof -
  let ?bs = "batches (emitted s1 s2)"
  have sc: "search_countries env tid req cs [] s1 = (Inr all_patents, s2)"
    using assms(4) by (simp add: search_stage_countries [OF assms(1,2)])
  from search_countries_calls [OF assms(3) sc]
  have calls: "search_calls (emitted s1 s2) =
           map (\<lambda>pais. Buscar (search_term req) ''all'' pais (limit req)) cs"
    and len: "length ?bs = length cs"
    and all: "all_patents = concat (map (\<lambda>(pais, b). map (\<lambda>p. p\<lparr>pais_filtro := Some pais\<rparr>) b)
                                 (zip cs ?bs))"
    by simp_all
  have sum: "length all_patents = sum_list (map length ?bs)"
    by (subst all) (rule length_concat_zip [OF len [symmetric]])
  have bound: "int (length all_patents) \<le> int (length cs) * limit req"
    if "list_all (\<lambda>b. int (length b) \<le> limit req) ?bs"
    using sum_lengths_bound [OF that] by (simp add: sum len)
  have honest: "\<exists>b w'. buscar_patentes fresh_env t c pais (limit req) w = (Inr b, w') \<and>
                int (length b) = limit req" if "1 \<le> limit req" for t c pais w
    using that by (simp add: fresh_env_def fresh_patents_def)
  have run: "\<exists>s' t' res. execute_search fresh_env tid req sx = (Inr (), s') \<and>
                  tasks s' tid = Some t' \<and> status t' = Completed \<and> result t' = Some res \<and>
                  subscript res ''total_patents'' = Inr (VInt (int (length cs) * limit req))"
    if "1 \<le> limit req" and "tasks sx tid = Some t" for sx t
    using fresh_run [OF that(2) assms(1,2) that(1)] .
  from calls len all sum bound honest run show ?thesis
    by blast
qed


theorem search_once_per_country_witness:
  "\<exists>s2. search_stage demo_env ''t1'' ((demo_request ''aspirin'')\<lparr>countries := Some [''US'', ''EP'']\<rparr>)
          (demo_state ''t1'' ((demo_request ''aspirin'')\<lparr>countries := Some [''US'', ''EP'']\<rparr>))
        = (Inr [(mk_patent ''US1'')\<lparr>pais_filtro := Some ''US''\<rparr>,
                (mk_patent ''EP1'')\<lparr>pais_filtro := Some ''EP''\<rparr>], s2) \<and>
     search_calls (emitted
          (demo_state ''t1'' ((demo_request ''aspirin'')\<lparr>countries := Some [''US'', ''EP'']\<rparr>)) s2)
        = [Buscar ''aspirin'' ''all'' ''US'' 1, Buscar ''aspirin'' ''all'' ''EP'' 1] \<and>
     limit ((demo_request ''aspirin'')\<lparr>countries := Some [''US'', ''EP'']\<rparr>) = 1 \<and>
     (\<exists>s' t' res.
        execute_search fresh_env ''t1'' ((demo_request ''aspirin'')\<lparr>countries := Some [''US'', ''EP'']\<rparr>)
            \<lparr>tasks = [''t1'' \<mapsto> demo_task ''t1'' (demo_request ''aspirin'')], world = 0, trace = []\<rparr>
          = (Inr (), s') \<and>
        tasks s' ''t1'' = Some t' \<and> status t' = Completed \<and> result t' = Some res \<and>
        subscript res ''total_patents'' = Inr (VInt 2))"
proof -
  let ?req = "(demo_request ''aspirin'')\<lparr>countries := Some [''US'', ''EP'']\<rparr>"
  have c: "countries ?req = Some [''US'', ''EP'']" by simp
  have ne: "[''US'', ''EP''] \<noteq> []" by simp
  have ex: "tasks (demo_state ''t1'' ?req) ''t1'' \<noteq> None"
    by (simp add: demo_state_def)
  obtain s2 where q: "search_stage demo_env ''t1'' ?req (demo_state ''t1'' ?req)
        = (Inr [(mk_patent ''US1'')\<lparr>pais_filtro := Some ''US''\<rparr>,
                (mk_patent ''EP1'')\<lparr>pais_filtro := Some ''EP''\<rparr>], s2)"
    by (simp add: search_stage_def write_task_def invoke_def demo_env_def demo_request_def
        demo_state_def)
  have l: "limit ?req = 1" by (simp add: demo_request_def)
  have tx: "tasks \<lparr>tasks = [''t1'' \<mapsto> demo_task ''t1'' (demo_request ''aspirin'')],
      world = 0::nat, trace = []\<rparr> ''t1'' = Some (demo_task ''t1'' (demo_request ''aspirin''))"
    by simp
  from search_once_per_country [OF c ne ex q]
  have calls: "search_calls (emitted (demo_state ''t1'' ?req) s2) =
      map (\<lambda>pais. Buscar (search_term ?req) ''all'' pais (limit ?req)) [''US'', ''EP'']"
    and run: "1 \<le> limit ?req \<longrightarrow>
      (\<forall>sx t. tasks sx ''t1'' = Some t \<longrightarrow>
         (\<exists>s' t' res. execute_search fresh_env ''t1'' ?req sx = (Inr (), s') \<and>
            tasks s' ''t1'' = Some t' \<and> status t' = Completed \<and> result t' = Some res \<and>
            subscript res ''total_patents'' = Inr (VInt (int (length [''US'', ''EP'']) * limit ?req))))"
    by blast+
  have one: "1 \<le> limit ?req" by (simp add: l)
  note run [rule_format, OF one tx]
  then have r2: "\<exists>s' t' res. execute_search fresh_env ''t1'' ?req
        \<lparr>tasks = [''t1'' \<mapsto> demo_task ''t1'' (demo_request ''aspirin'')], world = 0, trace = []\<rparr>
          = (Inr (), s') \<and>
        tasks s' ''t1'' = Some t' \<and> status t' = Completed \<and> result t' = Some res \<and>
        subscript res ''total_patents'' = Inr (VInt 2)"
    by (simp add: l)
  have c2: "search_calls (emitted (demo_state ''t1'' ?req) s2) =
      [Buscar ''aspirin'' ''all'' ''US'' 1, Buscar ''aspirin'' ''all'' ''EP'' 1]"
    using calls by (simp add: demo_request_def)
  from q c2 l r2 show ?thesis by blast
qed


text \<open>
  C6. The list that the worker uses after a failed enrichment is the list object it
  passed, and the enrichment may have written into its records before it raised: in the
  concrete world the enrichment sets a title in both records and raises, the run completes,
  and the grouping and the result hold the records with that title, not the deduplicated
  records as they were.
\<close>

theorem enrichment_leaves_changes:
  "fst demo_run_details = Inr () \<and>
   status (the (tasks (snd demo_run_details) ''t1'')) = Completed \<and>
   remove_duplicates [mk_patent ''US1'', mk_patent ''US1'', mk_patent ''EP2'']
     = [mk_patent ''US1'', mk_patent ''EP2''] \<and>
   Call (Enriquecer [mk_patent ''US1'', mk_patent ''EP2''] None) (Raises (PyException ''timeout''))
     \<in> set (trace (snd demo_run_details)) \<and>
   Call (Agrupar [touched (mk_patent ''US1''), touched (mk_patent ''EP2'')]) Returns
     \<in> set (trace (snd demo_run_details)) \<and>
   map_of (the (result (the (tasks (snd demo_run_details) ''t1'')))) ''patents''
     = Some (VList [VPatent (touched (mk_patent ''US1'')), VPatent (touched (mk_patent ''EP2''))]) \<and>
   [touched (mk_patent ''US1''), touched (mk_patent ''EP2'')]
     \<noteq> [mk_patent ''US1'', mk_patent ''EP2'']"
proof -
  have d: "remove_duplicates [mk_patent ''US1'', mk_patent ''US1'', mk_patent ''EP2'']
     = [mk_patent ''US1'', mk_patent ''EP2'']"
    by (simp add: remove_duplicates_def mk_patent_def get_str_def dict_contains_def
        dict_values_def Let_def)
  have ne: "[touched (mk_patent ''US1''), touched (mk_patent ''EP2'')]
     \<noteq> [mk_patent ''US1'', mk_patent ''EP2'']"
    by (simp add: touched_def mk_patent_def)
  have "fst demo_run_details = Inr () \<and>
   status (the (tasks (snd demo_run_details) ''t1'')) = Completed \<and>
   Call (Enriquecer [mk_patent ''US1'', mk_patent ''EP2''] None) (Raises (PyException ''timeout''))
     \<in> set (trace (snd demo_run_details)) \<and>
   Call (Agrupar [touched (mk_patent ''US1''), touched (mk_patent ''EP2'')]) Returns
     \<in> set (trace (snd demo_run_details)) \<and>
   map_of (the (result (the (tasks (snd demo_run_details) ''t1'')))) ''patents''
     = Some (VList [VPatent (touched (mk_patent ''US1'')), VPatent (touched (mk_patent ''EP2''))])"
    by (simp add: demo_run_details_def demo_request_details_def execute_search_def try_body_def
        prepare_def search_stage_def process_results_def enrich_stage_def save_and_complete_def
        bind_exn_def write_task_def invoke_def ask_def ret_def d full_result_def touched_def
        demo_env_def demo_request_def demo_state_def results_dir_simple)
  with d ne show ?thesis by simp
qed

text \<open>
  C6, as the code has it. In a run in which records survive deduplication, enrichment was
  requested and the enrichment raises, leaving the list it was given as \<open>left\<close>, the worker
  returns without an exception. It writes the exception to the progress note
  \<open>Error retrieving details: ...\<close> and nowhere else, and goes on with \<open>left\<close> (the
  deduplicated list itself when the enrichment wrote nothing into it). Then either the
  grouping of \<open>left\<close> and both writes return, the trace of the run after the search is
  exactly the one below, and the task is \<open>completed\<close> without an error, with the
  statistics and the records of \<open>left\<close>; or the grouping or a write raises, and the task
  is \<open>failed\<close> with the message of that exception.
\<close>

theorem enrichment_failure_not_fatal:
  assumes "tasks s tid = Some t"
    and "prepare env tid req s = (Inr pasta, s1)"
    and "search_stage env tid req s1 = (Inr all_patents, s2)"
    and "remove_duplicates all_patents \<noteq> []"
    and "get_details req"
    and "enriquecer_patentes_com_detalhes env (remove_duplicates all_patents) (max_details req)
           (world s2) = (Inl (e, left), w)"
  shows "\<exists>s' t' evs. execute_search env tid req s = (Inr (), s') \<and> tasks s' tid = Some t' \<and>
           trace s' = trace s2 @
             [Write tid (SetProgress (''Found ''
                @ str_nat (length (remove_duplicates all_patents)) @ '' unique patents'')),
              Write tid (SetProgress ''Retrieving complete details...''),
              Call (Enriquecer (remove_duplicates all_patents) (max_details req)) (Raises e),
              Write tid (SetProgress (''Error retrieving details: '' @ str_exn e)),
              Write tid (SetProgress ''Saving results...'')] @ evs \<and>
           ((\<exists>g data_busca.
               evs = [Call (Agrupar left) Returns,
                      Call (JsonDump (json_file pasta) g) Returns,
                      Call (JsonDump (summary_file pasta)
                              (summary req data_busca all_patents left (calc_statistics left)))
                        Returns,
                      Write tid (SetStatus Completed),
                      Write tid (SetResult (full_result req pasta data_busca all_patents left
                                              (calc_statistics left)))] \<and>
               status t' = Completed \<and> error t' = error t \<and>
               result t' = Some (full_result req pasta data_busca all_patents left
                                   (calc_statistics left)))
            \<or> (\<exists>c e'. is_save c \<and> Call c (Raises e') \<in> set evs \<and>
                  status t' = Failed \<and> result t' = result t \<and>
                  error t' = Some (str_exn e')))"
proof -
  let ?pl = "remove_duplicates all_patents"
  from after_search [OF assms(1-3)] obtain t2 where t2: "tasks s2 tid = Some t2"
    and t2eq: "t2 = t\<lparr>status := Running, progress := progress t2\<rparr>"
    and tb: "try_body env tid req s = process_results env tid req pasta all_patents s2"
    by blast
  define sa where "sa = s2\<lparr>tasks := (tasks s2)(tid \<mapsto> t2\<lparr>progress :=
                   Some (''Found '' @ str_nat (length (remove_duplicates all_patents))
                     @ '' unique patents'')\<rparr>),
                 trace := trace s2 @
                   [Write tid (SetProgress (''Found ''
                      @ str_nat (length (remove_duplicates all_patents))
                      @ '' unique patents''))]\<rparr>"
  define ta where "ta = t2\<lparr>progress := Some (''Found '' @ str_nat (length ?pl) @ '' unique patents'')\<rparr>"
  have wa: "process_results env tid req pasta all_patents s2 =
           bind_exn (enrich_stage env tid req ?pl) (\<lambda>patents_list.
             save_and_complete env tid req pasta all_patents patents_list
               (calc_statistics patents_list)) sa"
    unfolding sa_def by (rule process_results_nonempty [OF assms(4) t2])
  have tsa: "tasks sa tid = Some ta" and wsa: "world sa = world s2"
    by (simp_all add: sa_def ta_def)
  define sb where "sb = sa\<lparr>tasks := (tasks sa)(tid \<mapsto>
        ta\<lparr>progress := Some (''Error retrieving details: '' @ str_exn e)\<rparr>),
      world := w,
      trace := trace sa @
        [Write tid (SetProgress ''Retrieving complete details...''),
         Call (Enriquecer ?pl (max_details req)) (Raises e),
         Write tid (SetProgress (''Error retrieving details: '' @ str_exn e))]\<rparr>"
  define tb' where "tb' = ta\<lparr>progress := Some (''Error retrieving details: '' @ str_exn e)\<rparr>"
  have en: "enrich_stage env tid req ?pl sa = (Inr left, sb)"
    unfolding sb_def
    by (rule enrich_stage_raises [OF tsa assms(5,4)]) (simp add: wsa assms(6))
  have tsb: "tasks sb tid = Some tb'"
    by (simp add: sb_def tb'_def)
  have trb: "trace sb = trace s2 @
             [Write tid (SetProgress (''Found ''
                @ str_nat (length (remove_duplicates all_patents)) @ '' unique patents'')),
              Write tid (SetProgress ''Retrieving complete details...''),
              Call (Enriquecer (remove_duplicates all_patents) (max_details req)) (Raises e),
              Write tid (SetProgress (''Error retrieving details: '' @ str_exn e))]"
    by (simp add: sb_def sa_def)
  obtain r0 s3 where sv: "save_and_complete env tid req pasta all_patents left
      (calc_statistics left) sb = (r0, s3)"
    by (cases "save_and_complete env tid req pasta all_patents left (calc_statistics left) sb")
  have pr: "process_results env tid req pasta all_patents s2 = (r0, s3)"
    by (simp add: wa bind_exn_def en sv)
  note sh = save_and_complete_cases [OF tsb sv]
  have er: "error tb' = error t" and re: "result tb' = result t"
    unfolding tb'_def ta_def by (subst t2eq, simp)+
  show ?thesis
  proof (cases r0)
    case (Inr u)
    with sh obtain g data_busca where
      tr3: "trace s3 = trace sb @
                 [Write tid (SetProgress ''Saving results...''),
                  Call (Agrupar left) Returns,
                  Call (JsonDump (json_file pasta) g) Returns,
                  Call (JsonDump (summary_file pasta)
                          (summary req data_busca all_patents left (calc_statistics left))) Returns,
                  Write tid (SetStatus Completed),
                  Write tid (SetResult (full_result req pasta data_busca all_patents left
                                          (calc_statistics left)))]"
      and t3: "tasks s3 tid = Some (tb'\<lparr>progress := Some ''Saving results...'',
                 status := Completed,
                 result := Some (full_result req pasta data_busca all_patents left
                                   (calc_statistics left))\<rparr>)"
      by auto
    have ex: "execute_search env tid req s = (Inr (), s3)"
      by (simp add: execute_search_def tb pr Inr)
    show ?thesis
      apply (rule exI [of _ s3])
      apply (rule exI [of _ "tb'\<lparr>progress := Some ''Saving results...'',
                 status := Completed,
                 result := Some (full_result req pasta data_busca all_patents left
                                   (calc_statistics left))\<rparr>"])
      apply (rule exI [of _ "[Call (Agrupar left) Returns,
                  Call (JsonDump (json_file pasta) g) Returns,
                  Call (JsonDump (summary_file pasta)
                          (summary req data_busca all_patents left (calc_statistics left))) Returns,
                  Write tid (SetStatus Completed),
                  Write tid (SetResult (full_result req pasta data_busca all_patents left
                                          (calc_statistics left)))]"])
      apply (intro conjI)
         apply (rule ex)
        apply (rule t3)
       apply (simp add: tr3 trb)
      apply (rule disjI1)
      apply (rule exI [of _ g])
      apply (rule exI [of _ data_busca])
      apply (simp add: er)
      done
  next
    case (Inl e')
    with sh obtain evs0 where
      tr3: "trace s3 = trace sb @ Write tid (SetProgress ''Saving results...'') # evs0"
      and sr: "list_ex (save_raised e') evs0"
      and t3: "tasks s3 tid = Some (tb'\<lparr>progress := Some ''Saving results...''\<rparr>)"
      by auto
    from save_raisedD [OF sr] obtain c where c: "is_save c" "Call c (Raises e') \<in> set evs0"
      by blast
    define s4 where "s4 = s3\<lparr>tasks := (tasks s3)(tid \<mapsto>
        tb'\<lparr>progress := Some ''Saving results...'', status := Failed, error := Some (str_exn e')\<rparr>),
      trace := trace s3 @ [Write tid (SetStatus Failed), Write tid (SetError (str_exn e'))]\<rparr>"
    have ex: "execute_search env tid req s = (Inr (), s4)"
      using t3 by (simp add: execute_search_def tb pr Inl bind_exn_def write_task_def s4_def)
    have t4: "tasks s4 tid = Some (tb'\<lparr>progress := Some ''Saving results...'',
        status := Failed, error := Some (str_exn e')\<rparr>)"
      by (simp add: s4_def)
    have tr4: "trace s4 = trace sb @ Write tid (SetProgress ''Saving results...'') #
        (evs0 @ [Write tid (SetStatus Failed), Write tid (SetError (str_exn e'))])"
      by (simp add: s4_def tr3)
    show ?thesis
      apply (rule exI [of _ s4])
      apply (rule exI [of _ "tb'\<lparr>progress := Some ''Saving results...'',
        status := Failed, error := Some (str_exn e')\<rparr>"])
      apply (rule exI [of _ "evs0 @ [Write tid (SetStatus Failed), Write tid (SetError (str_exn e'))]"])
      using ex t4 c re by (auto simp: tr4 trb)
  qed
qed

theorem enrichment_failure_not_fatal_witness:
  "\<exists>s1 s2 s' t'.
     prepare demo_env ''t1'' demo_request_details (demo_state ''t1'' demo_request_details)
       = (Inr ''resultados/patentscope_aspirin_20240101_120000'', s1) \<and>
     search_stage demo_env ''t1'' demo_request_details s1
       = (Inr [mk_patent ''US1'', mk_patent ''US1'', mk_patent ''EP2''], s2) \<and>
     remove_duplicates [mk_patent ''US1'', mk_patent ''US1'', mk_patent ''EP2'']
       = [mk_patent ''US1'', mk_patent ''EP2''] \<and>
     enriquecer_patentes_com_detalhes demo_env [mk_patent ''US1'', mk_patent ''EP2''] None (world s2)
       = (Inl (PyException ''timeout'', [touched (mk_patent ''US1''), touched (mk_patent ''EP2'')]),
          world s2) \<and>
     execute_search demo_env ''t1'' demo_request_details (demo_state ''t1'' demo_request_details)
       = (Inr (), s') \<and>
     tasks s' ''t1'' = Some t' \<and> status t' = Completed \<and> error t' = None \<and>
     Write ''t1'' (SetProgress ''Error retrieving details: timeout'') \<in> set (trace s') \<and>
     Call (Agrupar [touched (mk_patent ''US1''), touched (mk_patent ''EP2'')]) Returns
       \<in> set (trace s') \<and>
     dict_keys (files (world s'))
       = [''resultados/patentscope_aspirin_20240101_120000/patents_complete.json'',
          ''resultados/patentscope_aspirin_20240101_120000/summary_with_stats.json'']"
proof -
  let ?req = "demo_request_details"
  let ?left = "[touched (mk_patent ''US1''), touched (mk_patent ''EP2'')]"
  have t: "tasks (demo_state ''t1'' ?req) ''t1'' = Some (demo_task ''t1'' ?req)"
    by (simp add: demo_state_def)
  obtain s1 where p: "prepare demo_env ''t1'' ?req (demo_state ''t1'' ?req)
       = (Inr ''resultados/patentscope_aspirin_20240101_120000'', s1)"
    by (simp add: prepare_def bind_exn_def write_task_def invoke_def ask_def ret_def
        demo_env_def demo_request_def demo_request_details_def demo_state_def results_dir_simple)
  obtain s2 where q: "search_stage demo_env ''t1'' ?req s1
       = (Inr [mk_patent ''US1'', mk_patent ''US1'', mk_patent ''EP2''], s2)"
    using prepare_post [OF t p]
    by (simp add: search_stage_def bind_exn_def write_task_def invoke_def
        demo_env_def demo_request_def demo_request_details_def)
  have d: "remove_duplicates [mk_patent ''US1'', mk_patent ''US1'', mk_patent ''EP2'']
       = [mk_patent ''US1'', mk_patent ''EP2'']"
    by (simp add: remove_duplicates_def mk_patent_def get_str_def dict_contains_def
        dict_values_def Let_def)
  have ne: "remove_duplicates [mk_patent ''US1'', mk_patent ''US1'', mk_patent ''EP2''] \<noteq> []"
    by (simp add: d)
  have g: "get_details ?req" by (simp add: demo_request_details_def)
  have e: "enriquecer_patentes_com_detalhes demo_env
      (remove_duplicates [mk_patent ''US1'', mk_patent ''US1'', mk_patent ''EP2''])
      (max_details ?req) (world s2) = (Inl (PyException ''timeout'', ?left), world s2)"
    by (simp add: d demo_env_def touched_def)
  have e': "enriquecer_patentes_com_detalhes demo_env [mk_patent ''US1'', mk_patent ''EP2'']
      None (world s2) = (Inl (PyException ''timeout'', ?left), world s2)"
    by (simp add: demo_env_def touched_def)
  from enrichment_failure_not_fatal [OF t p q ne g e]
  obtain s' t' evs where
    ex: "execute_search demo_env ''t1'' ?req (demo_state ''t1'' ?req) = (Inr (), s')"
    and t': "tasks s' ''t1'' = Some t'"
    and tr: "trace s' = trace s2 @
             [Write ''t1'' (SetProgress (''Found ''
                @ str_nat (length (remove_duplicates
                     [mk_patent ''US1'', mk_patent ''US1'', mk_patent ''EP2''])) @ '' unique patents'')),
              Write ''t1'' (SetProgress ''Retrieving complete details...''),
              Call (Enriquecer (remove_duplicates
                     [mk_patent ''US1'', mk_patent ''US1'', mk_patent ''EP2'']) (max_details ?req))
                (Raises (PyException ''timeout'')),
              Write ''t1'' (SetProgress (''Error retrieving details: ''
                @ str_exn (PyException ''timeout''))),
              Write ''t1'' (SetProgress ''Saving results...'')] @ evs"
    and alt: "(\<exists>g data_busca.
               evs = [Call (Agrupar ?left) Returns,
                      Call (JsonDump (json_file ''resultados/patentscope_aspirin_20240101_120000'') g)
                        Returns,
                      Call (JsonDump (summary_file ''resultados/patentscope_aspirin_20240101_120000'')
                              (summary ?req data_busca
                                 [mk_patent ''US1'', mk_patent ''US1'', mk_patent ''EP2'']
                                 ?left (calc_statistics ?left)))
                        Returns,
                      Write ''t1'' (SetStatus Completed),
                      Write ''t1'' (SetResult (full_result ?req
                         ''resultados/patentscope_aspirin_20240101_120000'' data_busca
                         [mk_patent ''US1'', mk_patent ''US1'', mk_patent ''EP2'']
                         ?left (calc_statistics ?left)))] \<and>
               status t' = Completed \<and> error t' = error (demo_task ''t1'' ?req) \<and>
               result t' = Some (full_result ?req
                         ''resultados/patentscope_aspirin_20240101_120000'' data_busca
                         [mk_patent ''US1'', mk_patent ''US1'', mk_patent ''EP2'']
                         ?left (calc_statistics ?left)))
            \<or> (\<exists>c e'. is_save c \<and> Call c (Raises e') \<in> set evs \<and>
                  status t' = Failed \<and> result t' = result (demo_task ''t1'' ?req) \<and>
                  error t' = Some (str_exn e'))"
    by blast
  have nf: "status t' \<noteq> Failed \<and>
      dict_keys (files (world s'))
       = [''resultados/patentscope_aspirin_20240101_120000/patents_complete.json'',
          ''resultados/patentscope_aspirin_20240101_120000/summary_with_stats.json'']"
    using ex t'
    by (auto simp add: execute_search_def try_body_def prepare_def search_stage_def
        process_results_def enrich_stage_def save_and_complete_def
        bind_exn_def write_task_def invoke_def ask_def ret_def d
        demo_env_def demo_request_def demo_request_details_def demo_state_def
        results_dir_simple json_file_def summary_file_def dict_keys_def Let_def
        dict_contains_def)
  with alt have c: "status t' = Completed \<and> error t' = None \<and>
      Call (Agrupar ?left) Returns \<in> set evs"
    by (auto simp: demo_task_def)
  have pn: "Write ''t1'' (SetProgress ''Error retrieving details: timeout'') \<in> set (trace s')"
    by (simp add: tr)
  have ag: "Call (Agrupar ?left) Returns \<in> set (trace s')"
    using c by (simp add: tr)
  show ?thesis
    apply (rule exI [of _ s1])
    apply (rule exI [of _ s2])
    apply (rule exI [of _ s'])
    apply (rule exI [of _ t'])
    apply (intro conjI)
              apply (rule p)
             apply (rule q)
            apply (rule d)
           apply (rule e')
          apply (rule ex)
         apply (rule t')
        apply (simp add: c)
       apply (simp add: c)
      apply (rule pn)
     apply (rule ag)
    apply (simp add: nf)
    done
qed

text \<open>
  C2. The worker assigns a final status and its payload in two statements (lines 129 and
  130, 217 and 218, 231 and 232), and nothing keeps a status query from running between
  them: the system reaches a state in which the task is \<open>completed\<close> and has no result.
\<close>

theorem completed_without_result:
  "(step demo_env)\<^sup>*\<^sup>* init_sys demo_sys_mid \<and>
   status (the (registry demo_sys_mid ''task0'')) = Completed \<and>
   result (the (registry demo_sys_mid ''task0'')) = None \<and>
   (result (the (registry demo_sys_mid ''task0'')) \<noteq> None)
     \<noteq> (status (the (registry demo_sys_mid ''task0'')) = Completed)"
proof -
  have "(step demo_env)\<^sup>*\<^sup>* demo_sys1
      \<lparr>registry = (registry demo_sys1)(''task0'' \<mapsto>
          fold apply_write (butlast demo_writes) (demo_task ''task0'' (demo_request ''none''))),
       jobs = (jobs demo_sys1)(''task0'' \<mapsto> [SetResult empty_result])\<rparr>"
    by (rule run_prefix) (simp_all add: demo_sys1_def demo_writes_def)
  then have "(step demo_env)\<^sup>*\<^sup>* demo_sys1 demo_sys_mid"
    by (simp add: demo_sys1_def demo_sys_mid_def demo_writes_def demo_task_def)
  with demo_submit have "(step demo_env)\<^sup>*\<^sup>* init_sys demo_sys_mid"
    by (rule converse_rtranclp_into_rtranclp)
  then show ?thesis
    by (simp add: demo_sys_mid_def demo_task_def)
qed

text \<open>
  C2, as the code has it. In every state the system reaches, a task whose result is set is
  \<open>completed\<close> and has no error, a task whose error is set is \<open>failed\<close> and has no result,
  and a \<open>queued\<close> or \<open>running\<close> task has neither. A \<open>completed\<close> task without a result
  and a \<open>failed\<close> task without an error occur, and only while the next statement of the
  worker of the task is the assignment of that payload. In the state in which a run of the
  worker on a task that had neither payload returns, the result is set exactly when the
  status is \<open>completed\<close> and the error exactly when it is \<open>failed\<close>.
\<close>

theorem payload_implies_status:
  assumes "(step env)\<^sup>*\<^sup>* init_sys \<sigma>" and "registry \<sigma> tid = Some t"
    and "tasks s k = Some t0" and "result t0 = None" and "error t0 = None"
    and "execute_search env k req s = (r, s')"
  shows "(result t \<noteq> None \<longrightarrow> status t = Completed \<and> error t = None) \<and>
         (error t \<noteq> None \<longrightarrow> status t = Failed \<and> result t = None) \<and>
         (status t = Queued \<or> status t = Running \<longrightarrow> result t = None \<and> error t = None) \<and>
         (status t = Completed \<and> result t = None \<longrightarrow>
            (\<exists>res ws. jobs \<sigma> tid = Some (SetResult res # ws))) \<and>
         (status t = Failed \<and> error t = None \<longrightarrow>
            (\<exists>m ws. jobs \<sigma> tid = Some (SetError m # ws))) \<and>
         (\<exists>t'. tasks s' k = Some t' \<and>
            (result t' \<noteq> None) = (status t' = Completed) \<and>
            (error t' \<noteq> None) = (status t' = Failed))"
proof -
  from sys_inv_reachable [OF assms(1)] assms(2)
  obtain ws where ws: "jobs \<sigma> tid = Some ws"
    and acc: "accepts (status t) (result t \<noteq> None) (error t \<noteq> None) ws"
    unfolding sys_inv_def by blast
  have a: "(result t \<noteq> None \<longrightarrow> status t = Completed \<and> error t = None) \<and>
         (error t \<noteq> None \<longrightarrow> status t = Failed \<and> result t = None) \<and>
         (status t = Queued \<or> status t = Running \<longrightarrow> result t = None \<and> error t = None)"
  proof (cases ws)
    case Nil
    with acc show ?thesis by auto
  next
    case (Cons wr ws')
    with acc show ?thesis by (cases wr) auto
  qed
  from accepts_payload [OF acc]
  have b: "(status t = Completed \<and> result t = None \<longrightarrow>
            (\<exists>res ws. jobs \<sigma> tid = Some (SetResult res # ws))) \<and>
         (status t = Failed \<and> error t = None \<longrightarrow>
            (\<exists>m ws. jobs \<sigma> tid = Some (SetError m # ws)))"
    by (auto simp: ws)
  from execute_search_shape [OF assms(3), of env req] assms(6)
  obtain evs t' where t': "tasks s' k = Some t'"
    and sh: "completes k (result_shape req) evs (t0\<lparr>status := Running\<rparr>) t' \<or>
             fails k evs (t0\<lparr>status := Running\<rparr>) t'"
    by auto
  from sh have c: "(result t' \<noteq> None) = (status t' = Completed) \<and>
            (error t' \<noteq> None) = (status t' = Failed)"
  proof
    assume "completes k (result_shape req) evs (t0\<lparr>status := Running\<rparr>) t'"
    then obtain res where "t' = t0\<lparr>status := Running, status := Completed,
        progress := progress t', result := Some res\<rparr>"
      unfolding completes_def by auto
    then have "status t' = Completed \<and> result t' = Some res \<and> error t' = error t0"
      by (metis task.select_convs task.simps task.update_convs
          task.surjective)
    then show ?thesis by (simp add: assms(5))
  next
    assume "fails k evs (t0\<lparr>status := Running\<rparr>) t'"
    then obtain e where "t' = t0\<lparr>status := Running, status := Failed,
        progress := progress t', error := Some (str_exn e)\<rparr>"
      unfolding fails_def by auto
    then have "status t' = Failed \<and> error t' = Some (str_exn e) \<and> result t' = result t0"
      by (metis task.select_convs task.simps task.update_convs
          task.surjective)
    then show ?thesis by (simp add: assms(4))
  qed
  from a b c t' show ?thesis by blast
qed

theorem payload_implies_status_witness:
  "(step demo_env)\<^sup>*\<^sup>* init_sys demo_sys_end \<and>
   registry demo_sys_end ''task0'' = Some ((demo_task ''task0'' (demo_request ''none''))
         \<lparr>status := Completed, progress := Some ''Found 0 unique patents'',
          result := Some empty_result\<rparr>) \<and>
   tasks (demo_state ''task0'' (demo_request ''none'')) ''task0''
     = Some (demo_task ''task0'' (demo_request ''none'')) \<and>
   result (demo_task ''task0'' (demo_request ''none'')) = None \<and>
   error (demo_task ''task0'' (demo_request ''none'')) = None \<and>
   (\<exists>t'. tasks (snd (execute_search demo_env ''task0'' (demo_request ''none'')
                      (demo_state ''task0'' (demo_request ''none'')))) ''task0'' = Some t' \<and>
      (result t' \<noteq> None) = (status t' = Completed) \<and>
      (error t' \<noteq> None) = (status t' = Failed))"
proof -
  have r: "(step demo_env)\<^sup>*\<^sup>* init_sys demo_sys_end"
    using demo_submit demo_end by (rule converse_rtranclp_into_rtranclp)
  have t: "registry demo_sys_end ''task0'' = Some ((demo_task ''task0'' (demo_request ''none''))
         \<lparr>status := Completed, progress := Some ''Found 0 unique patents'',
          result := Some empty_result\<rparr>)"
    by (simp add: demo_sys_end_def)
  have t0: "tasks (demo_state ''task0'' (demo_request ''none'')) ''task0''
     = Some (demo_task ''task0'' (demo_request ''none''))"
    by (simp add: demo_state_def)
  have n: "result (demo_task ''task0'' (demo_request ''none'')) = None"
    "error (demo_task ''task0'' (demo_request ''none'')) = None"
    by (simp_all add: demo_task_def)
  obtain r0 s' where ex: "execute_search demo_env ''task0'' (demo_request ''none'')
                      (demo_state ''task0'' (demo_request ''none'')) = (r0, s')"
    by (cases "execute_search demo_env ''task0'' (demo_request ''none'')
                      (demo_state ''task0'' (demo_request ''none''))")
  from payload_implies_status [OF r t t0 n ex] r t t0 n show ?thesis
    by (simp only: ex snd_conv)
qed

end
